theory Spec2Isabelle
  imports Complex_Main
begin

section \<open>SteamTasteMatch: the background pipeline (background.js)\<close>

text \<open>
  A shallow embedding of the review-collection and scoring pipeline of the extension's
  background script: \<open>calculateScore\<close>, \<open>parseReviewsFromHTML\<close>, \<open>fetchWithRetry\<close>,
  \<open>fetchAllReviewsFromProfile\<close>, \<open>fetchReviewerReviews\<close>, \<open>fetchAllReviewerData\<close>,
  \<open>fetchGameReviewers\<close>, \<open>fetchUserReviews\<close>, \<open>analyzeGame\<close> and
  \<open>startBackgroundAnalysis\<close>.
\<close>

subsection \<open>JavaScript numbers\<close>

text \<open>
  The counters of the script are non-negative integers (\<open>nat\<close>); the thresholds come from
  \<open>parseInt\<close> of a slider value (\<open>int\<close>). A quotient is a double: \<open>NaN\<close> for \<open>0 / 0\<close>,
  \<open>Infinity\<close> for a positive count divided by \<open>0\<close>, and otherwise the finite double nearest
  to the exact quotient. The rounding of an exact result to a double is the parameter
  \<open>fl\<close> of the arithmetic below; on the script's platform it is \<open>fl64\<close>.
\<close>

datatype jsnum = NaN | Infinity | Fin rat

text \<open>\<open>a / b\<close> for two counts.\<close>

definition js_div :: "(rat \<Rightarrow> rat) \<Rightarrow> nat \<Rightarrow> nat \<Rightarrow> jsnum" where
  "js_div fl a b =
     (if b = 0 then (if a = 0 then NaN else Infinity)
      else Fin (fl (of_nat a / of_nat b)))"

text \<open>\<open>x * 100\<close>.\<close>

definition js_times100 :: "(rat \<Rightarrow> rat) \<Rightarrow> jsnum \<Rightarrow> jsnum" where
  "js_times100 fl x =
     (case x of NaN \<Rightarrow> NaN | Infinity \<Rightarrow> Infinity | Fin q \<Rightarrow> Fin (fl (q * 100)))"

text \<open>\<open>x >= m\<close>: every comparison with \<open>NaN\<close> is false.\<close>

definition js_ge :: "jsnum \<Rightarrow> int \<Rightarrow> bool" where
  "js_ge x m = (case x of NaN \<Rightarrow> False | Infinity \<Rightarrow> True | Fin q \<Rightarrow> of_int m \<le> q)"

text \<open>\<open>Math.round(x)\<close>: the integer nearest to \<open>x\<close>, a tie going up.\<close>

definition Math_round :: "jsnum \<Rightarrow> jsnum" where
  "Math_round x =
     (case x of NaN \<Rightarrow> NaN | Infinity \<Rightarrow> Infinity
      | Fin q \<Rightarrow> Fin (of_int \<lfloor>q + 1 / 2\<rfloor>))"

text \<open>
  The rounding of IEEE 754 binary64, to the nearest double with a tie going to the
  even significand. A positive \<open>q\<close> is scaled by powers of two until it lies between
  \<open>2^52\<close> and \<open>2^53\<close>, rounded there to an integer and scaled back. At most 1074
  scalings are made, which covers the normal range of doubles from \<open>2^-1022\<close> up;
  quotients of two counts below \<open>2^53\<close> and their products with 100 lie in it.
  Overflow and subnormal numbers are left out.
\<close>

definition round_even :: "rat \<Rightarrow> int" where
  "round_even q =
     (let f = \<lfloor>q\<rfloor>; r = q - of_int f in
      if r < 1 / 2 then f else if 1 / 2 < r then f + 1 else if even f then f else f + 1)"

function normalize64 :: "nat \<Rightarrow> rat \<Rightarrow> rat \<Rightarrow> rat \<times> rat" where
  "normalize64 n q ulp =
     (if n = 0 then (q, ulp)
      else if 2 ^ 53 \<le> q then normalize64 (n - 1) (q / 2) (ulp * 2)
      else if q < 2 ^ 52 then normalize64 (n - 1) (q * 2) (ulp / 2)
      else (q, ulp))"
  by pat_completeness auto
termination
  by (relation "measure (\<lambda>(n, q, ulp). n)") auto

declare normalize64.simps [simp del]

definition fl64 :: "rat \<Rightarrow> rat" where
  "fl64 q =
     (if q = 0 then 0
      else (case normalize64 1074 \<bar>q\<bar> 1 of
              (s, ulp) \<Rightarrow> sgn q * of_int (round_even s) * ulp))"

subsection \<open>Data model\<close>

record review =
  appId :: string
  isPositive :: bool

text \<open>
  A reviewer as discovered from the feed, \<open>{steamId, profileUrl, votedUp}\<close>, and a
  reviewer with the scraped history, \<open>{steamId, reviews}\<close>; both carry \<open>steamId\<close>.
\<close>

record identified =
  steamId :: string

record reviewer = identified +
  profileUrl :: string
  votedUp :: bool

record reviewer_record = identified +
  reviews :: "review list"

record analysis_result =
  score :: jsnum
  totalReviewers :: nat
  matchingReviewers :: nat
  positiveCount :: nat
  avgOverlap :: jsnum
  minOverlap :: int
  minSimilarity :: int

subsection \<open>calculateScore\<close>

text \<open>
  \<open>userReviewMap\<close>: the \<open>Map\<close> filled by \<open>set(review.appId, review.isPositive)\<close> over the
  subject's reviews in order, a later entry overwriting an earlier one.
\<close>

definition userReviewMap :: "review list \<Rightarrow> (string \<rightharpoonup> bool)" where
  "userReviewMap userReviews =
     foldl (\<lambda>m r. m(appId r \<mapsto> isPositive r)) Map.empty userReviews"

text \<open>
  The inner loop over \<open>reviewer.reviews\<close>; the accumulator is
  \<open>(overlapCount, agreementCount)\<close>.
\<close>

fun count_overlap :: "(string \<rightharpoonup> bool) \<Rightarrow> review list \<Rightarrow> nat \<times> nat \<Rightarrow> nat \<times> nat" where
  "count_overlap m [] acc = acc"
| "count_overlap m (r # rs) (overlapCount, agreementCount) =
     (case m (appId r) of
        None \<Rightarrow> count_overlap m rs (overlapCount, agreementCount)
      | Some v \<Rightarrow>
          count_overlap m rs
            (overlapCount + 1,
             if v = isPositive r then agreementCount + 1 else agreementCount))"

text \<open>
  \<open>targetReview && targetReview.isPositive\<close> for
  \<open>targetReview = reviewer.reviews.find(r => r.appId === targetAppId)\<close>: the first review
  of the target game, if any, is positive.
\<close>

definition target_positive :: "review list \<Rightarrow> string \<Rightarrow> bool" where
  "target_positive rs targetAppId =
     (case find (\<lambda>r. appId r = targetAppId) rs of
        None \<Rightarrow> False
      | Some targetReview \<Rightarrow> isPositive targetReview)"

text \<open>
  One pass of the outer loop; the state is
  \<open>(matchingReviewers, positiveCount, totalOverlap)\<close>.
\<close>

definition score_step ::
  "(rat \<Rightarrow> rat) \<Rightarrow> (string \<rightharpoonup> bool) \<Rightarrow> string \<Rightarrow> int \<Rightarrow> int \<Rightarrow>
   nat \<times> nat \<times> nat \<Rightarrow> reviewer_record \<Rightarrow> nat \<times> nat \<times> nat" where
  "score_step fl m targetAppId min_overlap min_similarity st reviewer =
     (case st of (matching, positive, total_overlap) \<Rightarrow>
      (case count_overlap m (reviews reviewer) (0, 0) of (overlapCount, agreementCount) \<Rightarrow>
         if min_overlap \<le> int overlapCount then
           (let similarity = js_times100 fl (js_div fl agreementCount overlapCount) in
            if js_ge similarity min_similarity then
              (matching + 1,
               if target_positive (reviews reviewer) targetAppId then positive + 1 else positive,
               total_overlap + overlapCount)
            else (matching, positive, total_overlap))
         else (matching, positive, total_overlap)))"

definition calculateScore ::
  "(rat \<Rightarrow> rat) \<Rightarrow> review list \<Rightarrow> reviewer_record list \<Rightarrow> string \<Rightarrow> int \<Rightarrow> int \<Rightarrow>
   analysis_result" where
  "calculateScore fl userReviews reviewerData targetAppId min_overlap min_similarity =
     (case foldl (score_step fl (userReviewMap userReviews) targetAppId min_overlap min_similarity)
             (0, 0, 0) reviewerData of
        (matching, positive, total_overlap) \<Rightarrow>
          \<lparr> score = (if 0 < matching
                      then Math_round (js_times100 fl (js_div fl positive matching))
                      else Fin 0),
            totalReviewers = length reviewerData,
            matchingReviewers = matching,
            positiveCount = positive,
            avgOverlap = (if 0 < matching then js_div fl total_overlap matching else Fin 0),
            minOverlap = min_overlap,
            minSimilarity = min_similarity \<rparr>)"

subsection \<open>Errors\<close>

text \<open>An error is its \<open>message\<close>.\<close>

datatype js_error = Error string

subsection \<open>Regular expressions\<close>

text \<open>
  The script's patterns use literals, greedy repetition of a character class, grouping
  and alternation. \<open>rmatch\<close> lists the ways a pattern matches at the start of a string in
  the order a backtracking matcher tries them (a greedy repetition gives the longest run
  first); the first of them is the match. A string is a list of code units, of which
  only those below 256 are represented; the flag \<open>ic\<close> is the pattern's \<open>i\<close> flag, under
  which a literal of the patterns (all of them ASCII) matches a code unit when the two
  are equal up to the case of the letters \<open>a\<close> to \<open>z\<close>.
\<close>

abbreviation dquote :: char where
  "dquote \<equiv> CHR 0x22"

datatype regex =
    Eps
  | Lit string
  | Star "char \<Rightarrow> bool"
  | Plus "char \<Rightarrow> bool"
  | Seq regex regex
  | Alt regex regex
  | Group nat regex

type_synonym captures = "nat \<Rightarrow> string option"

text \<open>
  Case folding of a code unit: a letter \<open>a\<close> to \<open>z\<close> (0x61 to 0x7A: bits 5 and 6 set, bit 7
  clear, the low five bits from 1 to 26) loses bit 5; any other code unit is kept.
\<close>

fun toUpper :: "char \<Rightarrow> char" where
  "toUpper (Char b0 b1 b2 b3 b4 b5 b6 b7) =
     (if b5 \<and> b6 \<and> \<not> b7 \<and> (b0 \<or> b1 \<or> b2 \<or> b3 \<or> b4) \<and>
         \<not> (b4 \<and> b3 \<and> (b2 \<or> (b1 \<and> b0)))
      then Char b0 b1 b2 b3 b4 False b6 b7
      else Char b0 b1 b2 b3 b4 b5 b6 b7)"

definition canonicalize :: "bool \<Rightarrow> char \<Rightarrow> char" where
  "canonicalize ic c = (if ic then toUpper c else c)"

fun lit_match :: "bool \<Rightarrow> string \<Rightarrow> string \<Rightarrow> string option" where
  "lit_match ic [] s = Some s"
| "lit_match ic (p # ps) [] = None"
| "lit_match ic (p # ps) (c # s) =
     (if canonicalize ic p = canonicalize ic c then lit_match ic ps s else None)"

text \<open>The rests of a string after a greedy run of a class, the longest run first.\<close>

fun backoff :: "(char \<Rightarrow> bool) \<Rightarrow> string \<Rightarrow> string list" where
  "backoff C [] = [[]]"
| "backoff C (c # s) = (if C c then backoff C s @ [c # s] else [c # s])"

fun rmatch :: "bool \<Rightarrow> regex \<Rightarrow> captures \<times> string \<Rightarrow> (captures \<times> string) list" where
  "rmatch ic Eps x = [x]"
| "rmatch ic (Lit p) (caps, s) =
     (case lit_match ic p s of None \<Rightarrow> [] | Some r \<Rightarrow> [(caps, r)])"
| "rmatch ic (Star C) (caps, s) = map (Pair caps) (backoff C s)"
| "rmatch ic (Plus C) (caps, s) =
     (case s of [] \<Rightarrow> [] | c # s' \<Rightarrow> if C c then map (Pair caps) (backoff C s') else [])"
| "rmatch ic (Seq a b) x = concat (map (rmatch ic b) (rmatch ic a x))"
| "rmatch ic (Alt a b) x = rmatch ic a x @ rmatch ic b x"
| "rmatch ic (Group n a) (caps, s) =
     map (\<lambda>(caps', r). (caps'(n \<mapsto> take (length s - length r) s), r))
       (rmatch ic a (caps, s))"

text \<open>A match at the start of \<open>s\<close>: the captures and the number of code units matched.\<close>

definition exec_at :: "bool \<Rightarrow> regex \<Rightarrow> string \<Rightarrow> (captures \<times> nat) option" where
  "exec_at ic re s =
     (case rmatch ic re (Map.empty, s) of
        [] \<Rightarrow> None
      | (caps, r) # _ \<Rightarrow> Some (caps, length s - length r))"

text \<open>
  \<open>str.matchAll(re)\<close> for a pattern with the \<open>g\<close> flag: the matches from left to right,
  each search starting where the last match ended (one further after an empty match),
  each with its index. \<open>skip\<close> counts the code units still inside the last match.
\<close>

fun matchAll_from :: "bool \<Rightarrow> regex \<Rightarrow> nat \<Rightarrow> nat \<Rightarrow> string \<Rightarrow> (nat \<times> captures) list" where
  "matchAll_from ic re idx skip [] =
     (if skip = 0
      then (case exec_at ic re [] of None \<Rightarrow> [] | Some (caps, n) \<Rightarrow> [(idx, caps)])
      else [])"
| "matchAll_from ic re idx skip (c # s) =
     (if skip = 0 then
        (case exec_at ic re (c # s) of
           None \<Rightarrow> matchAll_from ic re (idx + 1) 0 s
         | Some (caps, n) \<Rightarrow> (idx, caps) # matchAll_from ic re (idx + 1) (n - 1) s)
      else matchAll_from ic re (idx + 1) (skip - 1) s)"

text \<open>
  A regular expression object: its pattern and the flags \<open>g\<close> and \<open>i\<close>. \<open>matchAll\<close> throws
  a \<open>TypeError\<close> when the flag \<open>g\<close> is missing.
\<close>

record regexp =
  source :: regex
  global :: bool
  ignoreCase :: bool

definition matchAll :: "regexp \<Rightarrow> string \<Rightarrow> js_error + (nat \<times> captures) list" where
  "matchAll re s =
     (if global re then Inr (matchAll_from (ignoreCase re) (source re) 0 0 s)
      else Inl (Error ''String.prototype.matchAll called with a non-global RegExp argument''))"

text \<open>\<open>str.match(re)\<close> for a pattern without the \<open>g\<close> flag: the captures of the leftmost match.\<close>

fun match_first :: "bool \<Rightarrow> regex \<Rightarrow> string \<Rightarrow> captures option" where
  "match_first ic re [] = map_option fst (exec_at ic re [])"
| "match_first ic re (c # s) =
     (case exec_at ic re (c # s) of
        None \<Rightarrow> match_first ic re s
      | Some (caps, n) \<Rightarrow> Some caps)"

primrec seqs :: "regex list \<Rightarrow> regex" where
  "seqs [] = Eps"
| "seqs (r # rs) = Seq r (seqs rs)"

text \<open>\<open>\d\<close>, and \<open>\s\<close> on code units below 256.\<close>

definition isDigit :: "char \<Rightarrow> bool" where
  "isDigit c = (c \<in> set ''0123456789'')"

definition isSpace :: "char \<Rightarrow> bool" where
  "isSpace c = (c \<in> set [CHR 0x09, CHR 0x0A, CHR 0x0B, CHR 0x0C, CHR 0x0D, CHR 0x20, CHR 0xA0])"

text \<open>\<open>s.substring(a, b)\<close> for \<open>a \<le> b\<close>.\<close>

definition substring :: "string \<Rightarrow> nat \<Rightarrow> nat \<Rightarrow> string" where
  "substring s a b = take (b - a) (drop a s)"

subsection \<open>parseReviewsFromHTML\<close>

text \<open>\<open>/<img[^>]+src="([^"]*icon_thumbs(Up|Down)[^"]*)"/gi\<close>\<close>

definition reviewImgPattern :: regexp where
  "reviewImgPattern =
     \<lparr>source =
        seqs [Lit ''<img'', Plus (\<lambda>c. c \<noteq> CHR ''>''), Lit (''src='' @ [dquote]),
              Group 1 (seqs [Star (\<lambda>c. c \<noteq> dquote), Lit ''icon_thumbs'',
                             Group 2 (Alt (Lit ''Up'') (Lit ''Down'')),
                             Star (\<lambda>c. c \<noteq> dquote)]),
              Lit [dquote]],
      global = True, ignoreCase = True\<rparr>"

text \<open>\<open>/href="[^"]*\/app\/(\d+)/gi\<close>\<close>

definition appLinkPattern :: regexp where
  "appLinkPattern =
     \<lparr>source =
        seqs [Lit (''href='' @ [dquote]), Star (\<lambda>c. c \<noteq> dquote), Lit ''/app/'',
              Group 1 (Plus isDigit)],
      global = True, ignoreCase = True\<rparr>"

text \<open>
  The body of the inner \<open>try\<close>, for one vote image. The state is \<open>reviews\<close> and
  \<open>skipReasons.noAppId\<close> (an entry kept as the thumb type and the position). The window
  is \<open>html.substring(Math.max(0, imgIndex - 2000), imgIndex)\<close>; \<open>closestAppLink\<close> is the
  last link matched in it. Group 1 takes part in every match of the link pattern, so
  the branch for a link without it is never taken.
\<close>

type_synonym parse_state = "review list \<times> (string option \<times> nat) list"

definition parse_marker ::
  "string \<Rightarrow> parse_state \<Rightarrow> nat \<times> captures \<Rightarrow> js_error + parse_state" where
  "parse_marker html st imgMatch =
     (case st of (revs, noAppId) \<Rightarrow>
      (case imgMatch of (imgIndex, caps) \<Rightarrow>
        (let thumbType = caps 2;
             isPos = (thumbType = Some ''Up'');
             searchStart = imgIndex - 2000;
             contextBefore = substring html searchStart imgIndex
         in (case matchAll appLinkPattern contextBefore of
               Inl err \<Rightarrow> Inl err
             | Inr appLinks \<Rightarrow>
                 if appLinks = [] then Inr (revs, noAppId @ [(thumbType, imgIndex)])
                 else (case snd (last appLinks) 1 of
                         None \<Rightarrow> Inr (revs, noAppId)
                       | Some app \<Rightarrow>
                           if find (\<lambda>r. appId r = app \<and> isPositive r = isPos) revs = None
                           then Inr (revs @ [\<lparr>appId = app, isPositive = isPos\<rparr>], noAppId)
                           else Inr (revs, noAppId))))))"

text \<open>
  One pass of the loop over the vote images: the inner \<open>catch\<close> goes on with the next
  image. An error of the body comes before its writes to the state.
\<close>

definition marker_step :: "string \<Rightarrow> parse_state \<Rightarrow> nat \<times> captures \<Rightarrow> parse_state" where
  "marker_step html st imgMatch =
     (case parse_marker html st imgMatch of Inl err \<Rightarrow> st | Inr st1 \<Rightarrow> st1)"

text \<open>The body of the outer \<open>try\<close>.\<close>

definition parse_markers :: "string \<Rightarrow> js_error + parse_state" where
  "parse_markers html =
     (case matchAll reviewImgPattern html of
        Inl err \<Rightarrow> Inl err
      | Inr reviewImgMatches \<Rightarrow> Inr (foldl (marker_step html) ([], []) reviewImgMatches))"

text \<open>
  The outer \<open>catch\<close> logs and falls through to \<open>return reviews\<close>; an error that reaches it
  comes before the loop, when \<open>reviews\<close> is still empty.
\<close>

definition parseReviewsFromHTML :: "string \<Rightarrow> review list" where
  "parseReviewsFromHTML html =
     (case parse_markers html of Inl err \<Rightarrow> [] | Inr (revs, noAppId) \<Rightarrow> revs)"

subsection \<open>The environment of a run\<close>

text \<open>
  A call of \<open>fetch\<close> resolves with an ok response and its text, resolves with another HTTP
  status, or rejects.
\<close>

datatype fetch_outcome = Ok string | HttpStatus nat | Rejected string

text \<open>
  The parsed body of a feed response: \<open>data.success\<close> (by its truthiness),
  \<open>data.reviews\<close> (absent or a list of \<open>{author: {steamid}, voted_up}\<close>, an entry with
  or without its author) and \<open>data.cursor\<close>.
\<close>

record api_author =
  steamid :: string

record api_review =
  author :: "api_author option"
  voted_up :: bool

record api_data =
  success :: bool
  api_reviews :: "api_review list option"
  cursor :: "string option"

text \<open>
  What a run does not decide itself: the \<open>rounding\<close> of the arithmetic; \<open>net k url\<close>, the
  outcome of the call of \<open>fetch\<close> made after \<open>k\<close> earlier calls, to \<open>url\<close>; \<open>cancelAt\<close>, the
  read of the flag \<open>shouldCancel\<close> (counted from 0) from which on the flag is set, or
  \<open>None\<close> when the run is never cancelled; \<open>JSON.parse\<close> (\<open>None\<close> when it throws) and
  \<open>encodeURIComponent\<close>. The flag is cleared when a run starts and set by the message
  listener between two reads. Progress texts, log entries and delays are left out.
\<close>

record env =
  rounding :: "rat \<Rightarrow> rat"
  net :: "nat \<Rightarrow> string \<Rightarrow> fetch_outcome"
  cancelAt :: "nat option"
  JSON_parse :: "string \<Rightarrow> api_data option"
  encodeURIComponent :: "string \<Rightarrow> string"

text \<open>The state threaded through a run: the URLs fetched so far and the reads of the flag.\<close>

record world =
  requests :: "string list"
  checks :: nat

definition shouldCancel :: "env \<Rightarrow> world \<Rightarrow> bool \<times> world" where
  "shouldCancel e w =
     ((case cancelAt e of None \<Rightarrow> False | Some k \<Rightarrow> k \<le> checks w),
      w\<lparr>checks := checks w + 1\<rparr>)"

text \<open>A number in a template string.\<close>

function show_nat :: "nat \<Rightarrow> string" where
  "show_nat n =
     (if n < 10 then [''0123456789'' ! n]
      else show_nat (n div 10) @ [''0123456789'' ! (n mod 10)])"
  by pat_completeness auto
termination
  by (relation "measure (\<lambda>n. n)") auto

declare show_nat.simps [simp del]

definition STEAM_API_REVIEW_URL :: string where
  "STEAM_API_REVIEW_URL = ''https://store.steampowered.com/appreviews/''"

definition STEAM_COMMUNITY_URL :: string where
  "STEAM_COMMUNITY_URL = ''https://steamcommunity.com''"

text \<open>The messages of the errors the pipeline throws itself.\<close>

definition msg_invalid_id :: string where
  "msg_invalid_id =
     ''Invalid Steam ID format. Please enter either your steamID64 (numbers) or custom URL username.''"

definition msg_could_not_fetch :: string where
  "msg_could_not_fetch =
     ''Could not fetch your reviews. Make sure your Steam ID is correct and your profile is public.''"

definition msg_no_reviews :: string where
  "msg_no_reviews = ''No reviews found for your profile. Make sure your profile is public.''"

definition msg_no_reviewers :: string where
  "msg_no_reviewers = ''No reviewers found for this game.''"

subsection \<open>fetchWithRetry\<close>

definition error_of :: "fetch_outcome \<Rightarrow> js_error" where
  "error_of r =
     (case r of
        HttpStatus n \<Rightarrow> Error (''HTTP error! status: '' @ show_nat n)
      | Rejected msg \<Rightarrow> Error msg
      | Ok text \<Rightarrow> Error [])"

text \<open>
  The loop \<open>for (let i = 0; i < retries; i++)\<close>, by the number of passes left; on the last
  pass \<open>i === retries - 1\<close>. A loop that runs out returns \<open>undefined\<close> (\<open>None\<close>).
\<close>

fun retry_loop :: "env \<Rightarrow> string \<Rightarrow> nat \<Rightarrow> world \<Rightarrow> (js_error + string option) \<times> world" where
  "retry_loop e url 0 w = (Inr None, w)"
| "retry_loop e url (Suc left) w =
     (case shouldCancel e w of (cancelled, w1) \<Rightarrow>
        if cancelled then (Inl (Error ''Cancelled''), w1)
        else
          (let w2 = w1\<lparr>requests := requests w1 @ [url]\<rparr> in
           (case net e (length (requests w1)) url of
              Ok text \<Rightarrow> (Inr (Some text), w2)
            | failure \<Rightarrow>
                if left = 0 then (Inl (error_of failure), w2)
                else retry_loop e url left w2)))"

definition fetchWithRetry ::
  "env \<Rightarrow> string \<Rightarrow> nat \<Rightarrow> world \<Rightarrow> (js_error + string option) \<times> world" where
  "fetchWithRetry e url retries w = retry_loop e url retries w"

subsection \<open>fetchAllReviewsFromProfile\<close>

definition maxPages :: nat where
  "maxPages = 50"

definition page_url :: "string \<Rightarrow> nat \<Rightarrow> string" where
  "page_url baseUrl page = (if page = 1 then baseUrl else baseUrl @ ''?p='' @ show_nat page)"

text \<open>
  The loop \<open>while (page <= maxPages)\<close>; the state is \<open>allReviews\<close> and \<open>page\<close>, and both are
  returned. Any error of a pass is caught and ends the loop. \<open>undefined\<close> is not a
  string, so parsing it throws inside the parser, which then returns no review.
\<close>

function pages_loop ::
  "env \<Rightarrow> string \<Rightarrow> nat \<Rightarrow> review list \<Rightarrow> world \<Rightarrow> (review list \<times> nat) \<times> world" where
  "pages_loop e baseUrl page allReviews w =
     (if page \<le> maxPages then
        (case fetchWithRetry e (page_url baseUrl page) 3 w of
           (Inl err, w1) \<Rightarrow> ((allReviews, page), w1)
         | (Inr html, w1) \<Rightarrow>
             (let revs = (case html of None \<Rightarrow> [] | Some h \<Rightarrow> parseReviewsFromHTML h) in
              if length revs = 0 then ((allReviews, page), w1)
              else if length revs < 10 then ((allReviews @ revs, page), w1)
              else pages_loop e baseUrl (page + 1) (allReviews @ revs) w1))
      else ((allReviews, page), w))"
  by pat_completeness auto
termination
  by (relation "measure (\<lambda>(e, baseUrl, page, allReviews, w). Suc maxPages - page)") auto

declare pages_loop.simps [simp del]

text \<open>The function has no \<open>throw\<close> of its own and catches inside the loop.\<close>

definition fetchAllReviewsFromProfile ::
  "env \<Rightarrow> string \<Rightarrow> world \<Rightarrow> (js_error + review list) \<times> world" where
  "fetchAllReviewsFromProfile e baseUrl w =
     (case pages_loop e baseUrl 1 [] w of ((allReviews, page), w1) \<Rightarrow> (Inr allReviews, w1))"

subsection \<open>fetchReviewerReviews and fetchAllReviewerData\<close>

definition fetchReviewerReviews ::
  "env \<Rightarrow> string \<Rightarrow> world \<Rightarrow> (js_error + review list) \<times> world" where
  "fetchReviewerReviews e sid w =
     (case fetchAllReviewsFromProfile e (STEAM_COMMUNITY_URL @ ''/profiles/'' @ sid @ ''/recommended/'') w of
        (Inr revs, w1) \<Rightarrow> (Inr revs, w1)
      | (Inl err, w1) \<Rightarrow>
          (case fetchAllReviewsFromProfile e (STEAM_COMMUNITY_URL @ ''/id/'' @ sid @ ''/recommended/'') w1 of
             (Inr revs, w2) \<Rightarrow> (Inr revs, w2)
           | (Inl error2, w2) \<Rightarrow> (Inr [], w2)))"

record collector =
  reviewerData :: "reviewer_record list"
  processed :: nat
  successCount :: nat
  errorCount :: nat
  privateProfileCount :: nat

text \<open>The loop \<open>for (const reviewer of reviewers)\<close>.\<close>

fun collect_loop :: "env \<Rightarrow> reviewer list \<Rightarrow> collector \<Rightarrow> world \<Rightarrow> collector \<times> world" where
  "collect_loop e [] st w = (st, w)"
| "collect_loop e (r # rest) st w =
     (case shouldCancel e w of (cancelled, w1) \<Rightarrow>
        if cancelled then (st, w1)
        else
          (let st1 = st\<lparr>processed := processed st + 1\<rparr> in
           (case fetchReviewerReviews e (steamId r) w1 of
              (Inl err, w2) \<Rightarrow>
                collect_loop e rest (st1\<lparr>errorCount := errorCount st1 + 1\<rparr>) w2
            | (Inr revs, w2) \<Rightarrow>
                if length revs = 0
                then collect_loop e rest
                       (st1\<lparr>privateProfileCount := privateProfileCount st1 + 1\<rparr>) w2
                else collect_loop e rest
                       (st1\<lparr>reviewerData :=
                               reviewerData st1 @ [\<lparr>steamId = steamId r, reviews = revs\<rparr>],
                             successCount := successCount st1 + 1\<rparr>) w2)))"

definition collector0 :: collector where
  "collector0 =
     \<lparr>reviewerData = [], processed = 0, successCount = 0, errorCount = 0,
      privateProfileCount = 0\<rparr>"

definition fetchAllReviewerData ::
  "env \<Rightarrow> reviewer list \<Rightarrow> nat \<Rightarrow> world \<Rightarrow> reviewer_record list \<times> world" where
  "fetchAllReviewerData e reviewers maxProfiles w =
     (case collect_loop e reviewers collector0 w of (st, w1) \<Rightarrow> (reviewerData st, w1))"

subsection \<open>fetchGameReviewers\<close>

definition feed_url :: "string \<Rightarrow> string \<Rightarrow> string" where
  "feed_url target cur =
     STEAM_API_REVIEW_URL @ target @
     ''?json=1&filter=all&language=all&day_range=9223372036854775807&cursor='' @ cur @
     ''&review_type=all&purchase_type=all&num_per_page=100''"

definition reviewer_of :: "api_author \<Rightarrow> bool \<Rightarrow> reviewer" where
  "reviewer_of a v =
     \<lparr>steamId = steamid a,
      profileUrl = STEAM_COMMUNITY_URL @ ''/profiles/'' @ steamid a,
      votedUp = v\<rparr>"

text \<open>
  The loop \<open>for (const review of data.reviews)\<close>. For an entry without author
  \<open>review.author.steamid\<close> throws a \<open>TypeError\<close> before the entry is pushed; the reviewers
  pushed before it stay in \<open>reviewers\<close>.
\<close>

fun push_reviewers :: "api_review list \<Rightarrow> reviewer list \<Rightarrow> js_error option \<times> reviewer list" where
  "push_reviewers [] reviewers = (None, reviewers)"
| "push_reviewers (review # rest) reviewers =
     (case author review of
        None \<Rightarrow> (Some (Error ''Cannot read properties of undefined''), reviewers)
      | Some a \<Rightarrow> push_reviewers rest (reviewers @ [reviewer_of a (voted_up review)]))"

text \<open>
  The loop \<open>while (totalFetched < maxProfiles && !shouldCancel)\<close>; the state is
  \<open>reviewers\<close>, \<open>cursor\<close>, \<open>totalFetched\<close> and \<open>requestCount\<close>. An error of \<open>fetchWithRetry\<close>,
  of \<open>JSON.parse\<close> or of the loop over the batch is caught and ends the loop.
  \<open>!data.cursor\<close> holds for an absent and for an empty cursor.
\<close>

function discover_loop ::
  "env \<Rightarrow> string \<Rightarrow> nat \<Rightarrow> reviewer list \<Rightarrow> string \<Rightarrow> nat \<Rightarrow> nat \<Rightarrow> world \<Rightarrow>
   (reviewer list \<times> nat) \<times> world" where
  "discover_loop e target maxProfiles reviewers cur totalFetched requestCount w =
     (if totalFetched < maxProfiles then
        (case shouldCancel e w of (cancelled, w1) \<Rightarrow>
           if cancelled then ((reviewers, requestCount), w1)
           else
             (case fetchWithRetry e (feed_url target cur) 3 w1 of
                (Inl err, w2) \<Rightarrow> ((reviewers, requestCount + 1), w2)
              | (Inr response, w2) \<Rightarrow>
                  (case (case response of None \<Rightarrow> None | Some body \<Rightarrow> JSON_parse e body) of
                     None \<Rightarrow> ((reviewers, requestCount + 1), w2)
                   | Some data \<Rightarrow>
                       if \<not> success data then ((reviewers, requestCount + 1), w2)
                       else
                         (case api_reviews data of
                            None \<Rightarrow> ((reviewers, requestCount + 1), w2)
                          | Some batch \<Rightarrow>
                              if length batch = 0 then ((reviewers, requestCount + 1), w2)
                              else
                                (case push_reviewers batch reviewers of
                                   (Some err, reviewers1) \<Rightarrow> ((reviewers1, requestCount + 1), w2)
                                 | (None, reviewers1) \<Rightarrow>
                                     if cursor data = None \<or> cursor data = Some [] \<or>
                                        length batch < 100 \<or>
                                        maxProfiles \<le> totalFetched + length batch
                                     then ((reviewers1, requestCount + 1), w2)
                                     else discover_loop e target maxProfiles reviewers1
                                            (encodeURIComponent e
                                               (case cursor data of Some c \<Rightarrow> c | None \<Rightarrow> []))
                                            (totalFetched + length batch) (requestCount + 1) w2)))))
      else ((reviewers, requestCount), w))"
  by pat_completeness auto
termination
  by (relation "measure (\<lambda>(e, target, maxProfiles, reviewers, cur, totalFetched, requestCount, w).
                  maxProfiles - totalFetched)") auto

declare discover_loop.simps [simp del]

text \<open>\<open>reviewers.slice(0, maxProfiles)\<close> after the loop.\<close>

definition fetchGameReviewers :: "env \<Rightarrow> string \<Rightarrow> nat \<Rightarrow> world \<Rightarrow> reviewer list \<times> world" where
  "fetchGameReviewers e target maxProfiles w =
     (case discover_loop e target maxProfiles [] ''*'' 0 0 w of
        ((reviewers, requestCount), w1) \<Rightarrow> (take maxProfiles reviewers, w1))"

subsection \<open>parseSteamId and fetchUserReviews\<close>

text \<open>\<open>str.includes(p)\<close>, \<open>str.trim()\<close> and \<open>str.replace(/\/+$/, '')\<close> (the run of slashes at the end).\<close>

definition str_includes :: "string \<Rightarrow> string \<Rightarrow> bool" where
  "str_includes s p = (match_first False (Lit p) s \<noteq> None)"

definition trim :: "string \<Rightarrow> string" where
  "trim s = rev (dropWhile isSpace (rev (dropWhile isSpace s)))"

definition strip_trailing_slashes :: "string \<Rightarrow> string" where
  "strip_trailing_slashes s = rev (dropWhile (\<lambda>c. c = CHR ''/'') (rev s))"

text \<open>\<open>/steamcommunity\.com\/profiles\/(\d+)/\<close> and \<open>/steamcommunity\.com\/id\/([^\/\s]+)/\<close>\<close>

definition profilePattern :: regex where
  "profilePattern = seqs [Lit ''steamcommunity.com/profiles/'', Group 1 (Plus isDigit)]"

definition idPattern :: regex where
  "idPattern =
     seqs [Lit ''steamcommunity.com/id/'', Group 1 (Plus (\<lambda>c. c \<noteq> CHR ''/'' \<and> \<not> isSpace c))]"

text \<open>\<open>null\<close> is \<open>None\<close>.\<close>

definition parseSteamId :: "string \<Rightarrow> string option" where
  "parseSteamId input0 =
     (if input0 = [] then None
      else
        (let input = trim input0 in
         if str_includes input ''steamcommunity.com'' then
           (case match_first False profilePattern input of
              Some profileMatch \<Rightarrow> profileMatch 1
            | None \<Rightarrow>
                (case match_first False idPattern input of
                   Some idMatch \<Rightarrow> idMatch 1
                 | None \<Rightarrow> None))
         else Some (strip_trailing_slashes input)))"

text \<open>\<open>!cleanedId\<close> holds for \<open>null\<close> and for the empty string; \<open>/^\d+$/\<close> is a non-empty run of digits.\<close>

definition fetchUserReviews ::
  "env \<Rightarrow> string \<Rightarrow> world \<Rightarrow> (js_error + review list) \<times> world" where
  "fetchUserReviews e sid w =
     (case parseSteamId sid of
        None \<Rightarrow>
          (Inl (Error msg_invalid_id), w)
      | Some cleanedId \<Rightarrow>
          if cleanedId = [] then
            (Inl (Error msg_invalid_id), w)
          else
            (let baseUrl =
                   (if list_all isDigit cleanedId
                    then STEAM_COMMUNITY_URL @ ''/profiles/'' @ cleanedId @ ''/recommended/''
                    else STEAM_COMMUNITY_URL @ ''/id/'' @ cleanedId @ ''/recommended/'')
             in (case fetchAllReviewsFromProfile e baseUrl w of
                   (Inl err, w1) \<Rightarrow> (Inl err, w1)
                 | (Inr allReviews, w1) \<Rightarrow>
                     if length allReviews = 0 then
                       (Inl (Error msg_could_not_fetch), w1)
                     else (Inr allReviews, w1))))"

subsection \<open>analyzeGame and startBackgroundAnalysis\<close>

text \<open>
  The parameter object \<open>{appId, steamId, minOverlap, minSimilarity, maxProfiles}\<close> is taken
  apart in the head of \<open>analyzeGame\<close>; here the five are arguments. The \<open>catch\<close> of
  \<open>analyzeGame\<close> logs and throws the error again.
\<close>

definition analyzeGame ::
  "env \<Rightarrow> string \<Rightarrow> string \<Rightarrow> int \<Rightarrow> int \<Rightarrow> nat \<Rightarrow> world \<Rightarrow>
   (js_error + analysis_result) \<times> world" where
  "analyzeGame e target sid min_overlap min_similarity maxProfiles w =
     (case fetchUserReviews e sid w of
        (Inl err, w1) \<Rightarrow> (Inl err, w1)
      | (Inr userReviews, w1) \<Rightarrow>
          (case shouldCancel e w1 of (cancelled1, w2) \<Rightarrow>
             if cancelled1 then (Inl (Error ''Cancelled''), w2)
             else if length userReviews = 0 then
               (Inl (Error msg_no_reviews), w2)
             else
               (case fetchGameReviewers e target maxProfiles w2 of (gameReviewers, w3) \<Rightarrow>
                  (case shouldCancel e w3 of (cancelled2, w4) \<Rightarrow>
                     if cancelled2 then (Inl (Error ''Cancelled''), w4)
                     else if length gameReviewers = 0 then
                       (Inl (Error msg_no_reviewers), w4)
                     else
                       (case fetchAllReviewerData e gameReviewers maxProfiles w4 of
                          (collected, w5) \<Rightarrow>
                            (case shouldCancel e w5 of (cancelled3, w6) \<Rightarrow>
                               if cancelled3 then (Inl (Error ''Cancelled''), w6)
                               else
                                 (Inr (calculateScore (rounding e) userReviews collected target
                                         min_overlap min_similarity), w6)))))))"

text \<open>
  What \<open>startBackgroundAnalysis\<close> leaves behind: the fields \<open>analysisResult\<close> and
  \<open>analysisError\<close> of \<open>chrome.storage.local\<close> (both \<open>null\<close> after the first write of a run),
  the progress text of its last write (\<open>None\<close> when the run ends without one) and the
  notification it asks for.
\<close>

datatype notification = AnalysisComplete analysis_result | AnalysisFailed string

record run_state =
  analysisResult :: "analysis_result option"
  analysisError :: "string option"
  terminalProgress :: "string option"
  notified :: "notification option"

definition world0 :: world where
  "world0 = \<lparr>requests = [], checks = 0\<rparr>"

definition startBackgroundAnalysis ::
  "env \<Rightarrow> string \<Rightarrow> string \<Rightarrow> int \<Rightarrow> int \<Rightarrow> nat \<Rightarrow> run_state" where
  "startBackgroundAnalysis e target sid min_overlap min_similarity maxProfiles =
     (case analyzeGame e target sid min_overlap min_similarity maxProfiles world0 of
        (Inr result, w1) \<Rightarrow>
          (case shouldCancel e w1 of (cancelled, w2) \<Rightarrow>
             if cancelled then
               \<lparr>analysisResult = None, analysisError = None,
                terminalProgress = Some ''Cancelled'', notified = None\<rparr>
             else
               \<lparr>analysisResult = Some result, analysisError = None,
                terminalProgress = Some ''Complete'', notified = Some (AnalysisComplete result)\<rparr>)
      | (Inl (Error message), w1) \<Rightarrow>
          if message \<noteq> ''Cancelled'' then
            \<lparr>analysisResult = None, analysisError = Some message,
             terminalProgress = Some ''Error'', notified = Some (AnalysisFailed message)\<rparr>
          else
            \<lparr>analysisResult = None, analysisError = None,
             terminalProgress = None, notified = None\<rparr>)"

subsection \<open>The scoring rule in the words of the specification\<close>

text \<open>
  The subject's \<open>lookup\<close> gives for a game the verdict of the subject's last review of
  it. \<open>overlapCount\<close> is the number of the reviewer's reviews whose game is in the
  lookup, \<open>agreementCount\<close> the number of those with the same verdict. A reviewer
  qualifies when \<open>overlapCount\<close> is at least \<open>minOverlap\<close> and not 0 and the similarity,
  the quotient \<open>agreementCount / overlapCount\<close> rounded to a double, times 100 and rounded
  again, is at least \<open>minSimilarity\<close>. The verdict of a reviewer on a game is that of
  the reviewer's first review of it.
\<close>

definition lookup :: "review list \<Rightarrow> (string \<rightharpoonup> bool)" where
  "lookup userReviews = map_of (rev (map (\<lambda>r. (appId r, isPositive r)) userReviews))"

definition overlap_of :: "(string \<rightharpoonup> bool) \<Rightarrow> review list \<Rightarrow> nat" where
  "overlap_of m revs = length (filter (\<lambda>r. m (appId r) \<noteq> None) revs)"

definition agreement_of :: "(string \<rightharpoonup> bool) \<Rightarrow> review list \<Rightarrow> nat" where
  "agreement_of m revs = length (filter (\<lambda>r. m (appId r) = Some (isPositive r)) revs)"

definition qualifies ::
  "(rat \<Rightarrow> rat) \<Rightarrow> (string \<rightharpoonup> bool) \<Rightarrow> int \<Rightarrow> int \<Rightarrow> reviewer_record \<Rightarrow> bool" where
  "qualifies fl m min_overlap min_similarity r =
     (min_overlap \<le> int (overlap_of m (reviews r)) \<and>
      0 < overlap_of m (reviews r) \<and>
      of_int min_similarity \<le>
        fl (fl (of_nat (agreement_of m (reviews r)) / of_nat (overlap_of m (reviews r))) * 100))"

definition first_verdict :: "review list \<Rightarrow> string \<Rightarrow> bool option" where
  "first_verdict revs game = map_of (map (\<lambda>r. (appId r, isPositive r)) revs) game"

subsection \<open>The extractor in the words of the specification\<close>

text \<open>
  The vote markers of a page are the matches of the vote-image pattern, from left to
  right, each with its position. The lookback window of a position is made of the
  \<open>lookback = 2000\<close> code units before it (of all of them when they are fewer). The game
  of a marker is the one of the last link matched in the marker's window, and the
  marker is unresolved when the window holds no link. The review of a resolved marker
  has the marker's game and verdict. \<open>keep_first\<close> keeps the first of equal entries
  where it is and drops the later ones; \<open>insert_new\<close> adds an entry at the end unless
  it is there already.
\<close>

definition lookback :: nat where
  "lookback = 2000"

definition lookback_window :: "string \<Rightarrow> nat \<Rightarrow> string" where
  "lookback_window html i = map (\<lambda>k. html ! k) [i - lookback..<i]"

definition vote_markers :: "string \<Rightarrow> (nat \<times> captures) list" where
  "vote_markers html = matchAll_from True (source reviewImgPattern) 0 0 html"

definition links_in :: "string \<Rightarrow> (nat \<times> captures) list" where
  "links_in window = matchAll_from True (source appLinkPattern) 0 0 window"

definition unresolved :: "string \<Rightarrow> nat \<times> captures \<Rightarrow> bool" where
  "unresolved html marker = (links_in (lookback_window html (fst marker)) = [])"

definition nearest_link :: "string \<Rightarrow> nat \<Rightarrow> string option" where
  "nearest_link html i =
     (case links_in (lookback_window html i) of
        [] \<Rightarrow> None
      | l # ls \<Rightarrow> snd (last (l # ls)) 1)"

definition resolve :: "string \<Rightarrow> nat \<times> captures \<Rightarrow> review option" where
  "resolve html marker =
     map_option (\<lambda>app. \<lparr>appId = app, isPositive = (snd marker 2 = Some ''Up'')\<rparr>)
       (nearest_link html (fst marker))"

fun keep_first :: "'a list \<Rightarrow> 'a list" where
  "keep_first [] = []"
| "keep_first (x # xs) = x # keep_first (filter (\<lambda>y. y \<noteq> x) xs)"

definition insert_new :: "review list \<Rightarrow> review \<Rightarrow> review list" where
  "insert_new revs r = (if r \<in> set revs then revs else revs @ [r])"

subsection \<open>The pipeline in the words of the specification\<close>

text \<open>
  The transport: a location is asked for up to three times. Before each attempt the
  cancellation flag is read, and a flag found set ends the fetch at once; the first
  answer that is ok gives the body; three failed attempts are a transport error.
  \<open>flag_set e k\<close> says that read number \<open>k\<close> of the flag finds it set.
\<close>

datatype fetched = Body string | TransportError | CancelRequested

definition flag_set :: "env \<Rightarrow> nat \<Rightarrow> bool" where
  "flag_set e k = (case cancelAt e of None \<Rightarrow> False | Some c \<Rightarrow> c \<le> k)"

definition fetched :: "env \<Rightarrow> string \<Rightarrow> world \<Rightarrow> fetched" where
  "fetched e url w =
     (let answer = (\<lambda>k. net e (length (requests w) + k) url);
          flag = (\<lambda>k. flag_set e (checks w + k))
      in if flag 0 then CancelRequested
         else (case answer 0 of
                 Ok text \<Rightarrow> Body text
               | _ \<Rightarrow>
                   if flag 1 then CancelRequested
                   else (case answer 1 of
                           Ok text \<Rightarrow> Body text
                         | _ \<Rightarrow>
                             if flag 2 then CancelRequested
                             else (case answer 2 of
                                     Ok text \<Rightarrow> Body text
                                   | _ \<Rightarrow> TransportError))))"

text \<open>
  Whether pagination ends with a page, by what its fetch gives: a page that yields
  fewer than 10 reviews (none included), a page that cannot be fetched, or
  cancellation.
\<close>

definition ends_pagination :: "fetched \<Rightarrow> bool" where
  "ends_pagination f =
     (case f of
        Body text \<Rightarrow> length (parseReviewsFromHTML text) < 10
      | TransportError \<Rightarrow> True
      | CancelRequested \<Rightarrow> True)"

text \<open>
  The batch of a feed response, and the stopping conditions of reviewer discovery on a
  response that arrived: no success, no or an empty batch, no next cursor, fewer than
  100 entries, or the running total at \<open>maxProfiles\<close>. A response is a \<open>full_batch\<close> when
  none of the first four holds and every entry has its author.
\<close>

definition batch_of :: "api_data \<Rightarrow> api_review list" where
  "batch_of data = (case api_reviews data of None \<Rightarrow> [] | Some batch \<Rightarrow> batch)"

definition stops_after :: "nat \<Rightarrow> nat \<Rightarrow> api_data \<Rightarrow> bool" where
  "stops_after maxProfiles totalFetched data =
     (\<not> success data \<or> batch_of data = [] \<or>
      cursor data = None \<or> cursor data = Some [] \<or>
      length (batch_of data) < 100 \<or>
      maxProfiles \<le> totalFetched + length (batch_of data))"

definition lacks_author :: "api_data \<Rightarrow> bool" where
  "lacks_author data = list_ex (\<lambda>review. author review = None) (batch_of data)"

definition full_batch :: "api_data \<Rightarrow> bool" where
  "full_batch data =
     (success data \<and> cursor data \<noteq> None \<and> cursor data \<noteq> Some [] \<and>
      100 \<le> length (batch_of data) \<and> \<not> lacks_author data)"

text \<open>
  The reviewers a batch gives: those of its entries before the first one without an
  author. The cursor sent after a response, and the cursors sent with the requests
  of a sequence of responses that starts with the cursor \<open>cur\<close>.
\<close>

definition identities :: "api_data \<Rightarrow> reviewer list" where
  "identities data =
     List.map_filter (\<lambda>review. map_option (\<lambda>a. reviewer_of a (voted_up review)) (author review))
       (takeWhile (\<lambda>review. author review \<noteq> None) (batch_of data))"

definition next_cursor :: "env \<Rightarrow> api_data \<Rightarrow> string" where
  "next_cursor e data = encodeURIComponent e (case cursor data of Some c \<Rightarrow> c | None \<Rightarrow> [])"

fun cursors :: "env \<Rightarrow> string \<Rightarrow> api_data list \<Rightarrow> string list" where
  "cursors e cur [] = []"
| "cursors e cur (data # rest) = cur # cursors e (next_cursor e data) rest"

definition cursor_after :: "env \<Rightarrow> string \<Rightarrow> api_data list \<Rightarrow> string" where
  "cursor_after e cur responses = foldl (\<lambda>c data. next_cursor e data) cur responses"

text \<open>
  Whether discovery ends with a request, by what its fetch gives and the running total
  before it: a response that cannot be fetched or parsed, one of the stopping
  conditions, an entry without author, or cancellation.
\<close>

definition ends_discovery :: "env \<Rightarrow> nat \<Rightarrow> nat \<Rightarrow> fetched \<Rightarrow> bool" where
  "ends_discovery e maxProfiles totalFetched f =
     (case f of
        Body body \<Rightarrow>
          (case JSON_parse e body of
             None \<Rightarrow> True
           | Some data \<Rightarrow> stops_after maxProfiles totalFetched data \<or> lacks_author data)
      | TransportError \<Rightarrow> True
      | CancelRequested \<Rightarrow> True)"

text \<open>The terminal states \<open>Failed\<close> and \<open>Complete\<close> as \<open>startBackgroundAnalysis\<close> writes them.\<close>

definition run_failed :: "string \<Rightarrow> run_state" where
  "run_failed msg =
     \<lparr>analysisResult = None, analysisError = Some msg,
      terminalProgress = Some ''Error'', notified = Some (AnalysisFailed msg)\<rparr>"


text \<open>The base location of the subject's review history, and a failed call of \<open>fetch\<close>.\<close>

definition profile_base :: "string \<Rightarrow> string" where
  "profile_base cleanedId =
     (if list_all isDigit cleanedId
      then STEAM_COMMUNITY_URL @ ''/profiles/'' @ cleanedId @ ''/recommended/''
      else STEAM_COMMUNITY_URL @ ''/id/'' @ cleanedId @ ''/recommended/'')"

definition is_failure :: "fetch_outcome \<Rightarrow> bool" where
  "is_failure r = (case r of Ok text \<Rightarrow> False | HttpStatus n \<Rightarrow> True | Rejected msg \<Rightarrow> True)"

subsection \<open>Concrete inputs\<close>

text \<open>
  The rounding on results that are doubles already (small integers, halves): there it
  changes nothing.
\<close>

definition fl_exact :: "rat \<Rightarrow> rat" where
  "fl_exact q = q"

text \<open>
  The scenario of the specification: a subject and a reviewer with two common games,
  on both of which they agree. Forty reviewers who all agree with a subject on its one
  game, 23 of them with a positive and 17 with a negative verdict on the target game.
\<close>

definition subject_abc :: "review list" where
  "subject_abc =
     [\<lparr>appId = ''A'', isPositive = True\<rparr>, \<lparr>appId = ''B'', isPositive = False\<rparr>,
      \<lparr>appId = ''C'', isPositive = True\<rparr>]"

definition reviewer_abd :: reviewer_record where
  "reviewer_abd =
     \<lparr>steamId = ''7'',
      reviews = [\<lparr>appId = ''A'', isPositive = True\<rparr>, \<lparr>appId = ''B'', isPositive = False\<rparr>,
                 \<lparr>appId = ''D'', isPositive = True\<rparr>]\<rparr>"

definition likes :: reviewer_record where
  "likes =
     \<lparr>steamId = ''8'',
      reviews = [\<lparr>appId = ''A'', isPositive = True\<rparr>, \<lparr>appId = ''T'', isPositive = True\<rparr>]\<rparr>"

definition dislikes :: reviewer_record where
  "dislikes =
     \<lparr>steamId = ''9'',
      reviews = [\<lparr>appId = ''A'', isPositive = True\<rparr>, \<lparr>appId = ''T'', isPositive = False\<rparr>]\<rparr>"

definition forty :: "reviewer_record list" where
  "forty = replicate 23 likes @ replicate 17 dislikes"

text \<open>Pieces of a review page: a link to a game and a vote image.\<close>

definition app_link :: "string \<Rightarrow> string" where
  "app_link n = ''href='' @ [dquote] @ ''/app/'' @ n @ [dquote]"

definition thumb :: "string \<Rightarrow> string" where
  "thumb t = ''<img src='' @ [dquote] @ ''icon_thumbs'' @ t @ [dquote] @ ''>''"

definition page_both :: string where
  "page_both = app_link ''10'' @ thumb ''Up'' @ thumb ''Down''"

definition page_skip :: string where
  "page_skip = thumb ''Down'' @ app_link ''10'' @ thumb ''Up''"

text \<open>
  A page with the same review twice, and a page with \<open>n\<close> code units between a link and
  its vote image.
\<close>

definition page_repeat :: string where
  "page_repeat =
     app_link ''1'' @ thumb ''Up'' @ app_link ''2'' @ thumb ''Up'' @ app_link ''1'' @ thumb ''Up''"

definition far_page :: "nat \<Rightarrow> string" where
  "far_page n = app_link ''10'' @ replicate n (CHR ''x'') @ thumb ''Up''"

text \<open>A full page of ten reviews, a last page of seven, and the history of a reviewer.\<close>

definition page10 :: string where
  "page10 = concat (map (\<lambda>n. app_link n @ thumb ''Up'')
      [''11'', ''12'', ''13'', ''14'', ''15'', ''16'', ''17'', ''18'', ''19'', ''20''])"

definition page7 :: string where
  "page7 = concat (map (\<lambda>n. app_link n @ thumb ''Down'')
      [''31'', ''32'', ''33'', ''34'', ''35'', ''36'', ''37''])"

definition page_reviewer :: string where
  "page_reviewer = app_link ''11'' @ thumb ''Up'' @ app_link ''99'' @ thumb ''Up''"

text \<open>
  A run in which the subject's first page holds ten reviews, every attempt at the second
  page fails with status 500, the feed answers with one reviewer and that reviewer's
  history has two reviews. \<open>net\<close> answers by the position of the call.
\<close>

definition feed1 :: api_data where
  "feed1 = \<lparr>success = True,
            api_reviews = Some [\<lparr>author = Some \<lparr>steamid = ''2''\<rparr>, voted_up = True\<rparr>],
            cursor = Some ''next''\<rparr>"


text \<open>
  Further runs. \<open>env_never\<close>: every call of \<open>fetch\<close> fails. \<open>env_feed_down\<close>: the subject's
  page arrives and every later call fails. \<open>env_cancelled\<close>: cancellation is requested
  before the first read of the flag, on a network that would deliver. \<open>env_vanity\<close>: only
  the vanity form of a profile location answers. \<open>env_pages\<close>: three full pages, then a
  page of seven. \<open>env_full\<close>: every page is full. \<open>env_feed\<close>: the feed answers with one
  reviewer.
\<close>

definition env_never :: env where
  "env_never =
     \<lparr>rounding = fl64, net = (\<lambda>k url. HttpStatus 503), cancelAt = None,
      JSON_parse = (\<lambda>body. None), encodeURIComponent = (\<lambda>s. s)\<rparr>"


definition env_cancelled :: env where
  "env_cancelled =
     \<lparr>rounding = fl64, net = (\<lambda>k url. Ok page10), cancelAt = Some 0,
      JSON_parse = (\<lambda>body. None), encodeURIComponent = (\<lambda>s. s)\<rparr>"

definition env_vanity :: env where
  "env_vanity =
     \<lparr>rounding = fl64,
      net = (\<lambda>k url. if url = STEAM_COMMUNITY_URL @ ''/id/gabe/recommended/''
                       then Ok page_reviewer else HttpStatus 404),
      cancelAt = None,
      JSON_parse = (\<lambda>body. None), encodeURIComponent = (\<lambda>s. s)\<rparr>"

definition env_pages :: env where
  "env_pages =
     \<lparr>rounding = fl64, net = (\<lambda>k url. if k < 3 then Ok page10 else Ok page7),
      cancelAt = None,
      JSON_parse = (\<lambda>body. None), encodeURIComponent = (\<lambda>s. s)\<rparr>"

definition env_full :: env where
  "env_full =
     \<lparr>rounding = fl64, net = (\<lambda>k url. Ok page10), cancelAt = None,
      JSON_parse = (\<lambda>body. None), encodeURIComponent = (\<lambda>s. s)\<rparr>"

definition env_feed :: env where
  "env_feed =
     \<lparr>rounding = fl64, net = (\<lambda>k url. Ok ''feed''), cancelAt = None,
      JSON_parse = (\<lambda>body. if body = ''feed'' then Some feed1 else None),
      encodeURIComponent = (\<lambda>s. s)\<rparr>"

text \<open>
  Feed responses: two full batches of 100 reviewers with a next cursor, and a batch
  whose second entry has no author. \<open>parse_feed\<close> stands for \<open>JSON.parse\<close> on the bodies
  \<open>feed\<close>, \<open>A\<close>, \<open>B\<close> and \<open>gap\<close>.
\<close>

definition batchA :: api_data where
  "batchA =
     \<lparr>success = True,
      api_reviews = Some (replicate 100 \<lparr>author = Some \<lparr>steamid = ''5''\<rparr>, voted_up = True\<rparr>),
      cursor = Some ''c1''\<rparr>"

definition batchB :: api_data where
  "batchB =
     \<lparr>success = True,
      api_reviews = Some (replicate 100 \<lparr>author = Some \<lparr>steamid = ''6''\<rparr>, voted_up = False\<rparr>),
      cursor = Some ''c2''\<rparr>"

definition batch_gap :: api_data where
  "batch_gap =
     \<lparr>success = True,
      api_reviews = Some [\<lparr>author = Some \<lparr>steamid = ''1''\<rparr>, voted_up = True\<rparr>,
                          \<lparr>author = None, voted_up = True\<rparr>,
                          \<lparr>author = Some \<lparr>steamid = ''3''\<rparr>, voted_up = False\<rparr>],
      cursor = Some ''c1''\<rparr>"

definition parse_feed :: "string \<Rightarrow> api_data option" where
  "parse_feed body =
     (if body = ''feed'' then Some feed1
      else if body = ''A'' then Some batchA
      else if body = ''B'' then Some batchB
      else if body = ''gap'' then Some batch_gap
      else None)"

text \<open>
  More runs. \<open>env_flaky\<close>: two full pages, then every call fails. \<open>env_two\<close>: the feed
  answers with the two full batches. \<open>env_gap\<close>: the feed answers with the batch that
  has an entry without author. \<open>env_feed_cut\<close>: the feed answers once with a full batch
  and every later call fails. \<open>env_cancel_late\<close>: the feed answers with a full batch and
  cancellation is requested before the third read of the flag. \<open>env_discovery_cut\<close>:
  the subject's history arrives, the feed answers once with a full batch, the three
  attempts at the second batch fail, and every reviewer's history arrives.
\<close>

definition env_flaky :: env where
  "env_flaky =
     \<lparr>rounding = fl64, net = (\<lambda>k url. if k < 2 then Ok page10 else HttpStatus 503),
      cancelAt = None, JSON_parse = parse_feed, encodeURIComponent = (\<lambda>s. s)\<rparr>"

definition env_two :: env where
  "env_two =
     \<lparr>rounding = fl64, net = (\<lambda>k url. if k = 0 then Ok ''A'' else Ok ''B''),
      cancelAt = None, JSON_parse = parse_feed, encodeURIComponent = (\<lambda>s. s)\<rparr>"

definition env_gap :: env where
  "env_gap =
     \<lparr>rounding = fl64, net = (\<lambda>k url. Ok ''gap''),
      cancelAt = None, JSON_parse = parse_feed, encodeURIComponent = (\<lambda>s. s)\<rparr>"

definition env_feed_cut :: env where
  "env_feed_cut =
     \<lparr>rounding = fl64, net = (\<lambda>k url. if k = 0 then Ok ''A'' else HttpStatus 503),
      cancelAt = None, JSON_parse = parse_feed, encodeURIComponent = (\<lambda>s. s)\<rparr>"

definition env_cancel_late :: env where
  "env_cancel_late =
     \<lparr>rounding = fl64, net = (\<lambda>k url. Ok ''A''),
      cancelAt = Some 2, JSON_parse = parse_feed, encodeURIComponent = (\<lambda>s. s)\<rparr>"


section \<open>Properties\<close>

subsection \<open>Case folding\<close>

lemma toUpper_letters:
  "map toUpper ''abcdefghijklmnopqrstuvwxyz'' = ''ABCDEFGHIJKLMNOPQRSTUVWXYZ''"
  by code_simp

lemma toUpper_other:
  assumes "toUpper c \<noteq> c"
  shows "c \<in> set ''abcdefghijklmnopqrstuvwxyz''"
proof (cases c)
  case (Char b0 b1 b2 b3 b4 b5 b6 b7)
  with assms have h: "b5" "b6" "\<not> b7" "b0 \<or> b1 \<or> b2 \<or> b3 \<or> b4"
    "\<not> (b4 \<and> b3 \<and> (b2 \<or> (b1 \<and> b0)))"
    by (auto split: if_splits)
  show ?thesis
    unfolding Char using h
    by (cases b0; cases b1; cases b2; cases b3; cases b4) simp_all
qed

subsection \<open>Doubles\<close>

lemma normalize64_step:
  "0 < n \<Longrightarrow> normalize64 n q ulp =
     (if 2 ^ 53 \<le> q then normalize64 (n - 1) (q / 2) (ulp * 2)
      else if q < 2 ^ 52 then normalize64 (n - 1) (q * 2) (ulp / 2)
      else (q, ulp))"
  by (subst normalize64.simps) simp

lemma floor_numeral_div: "\<lfloor>(numeral a / numeral b :: rat)\<rfloor> = numeral a div numeral b"
  using floor_divide_of_int_eq [of "numeral a" "numeral b", where ?'a = rat] by simp

lemmas fl64_eval = fl64_def normalize64_step round_even_def Let_def floor_numeral_div

lemma fl64_small: "fl64 1 = 1" "fl64 2 = 2" "fl64 100 = 100"
  by (simp_all add: fl64_eval)

lemma fl64_23_40: "fl64 (fl64 (23 / 40) * 100) = 8092405580431359 / 2 ^ 47"
proof -
  have a: "fl64 (23 / 40) = 5179139571476070 / 2 ^ 53"
    by (simp add: fl64_eval)
  have b: "fl64 (5179139571476070 / 2 ^ 53 * 100) = 8092405580431359 / 2 ^ 47"
    by (simp add: fl64_eval)
  show ?thesis unfolding a by (rule b)
qed


lemma nearest_unique:
  fixes x :: rat
  assumes "of_int k - 1 / 2 \<le> x" and "x < of_int k + 1 / 2"
  shows "k = \<lfloor>x + 1 / 2\<rfloor>"
  using assms by (intro floor_unique [symmetric]) simp_all

lemma nearest_floor:
  fixes x :: rat
  shows "of_int \<lfloor>x + 1 / 2\<rfloor> - 1 / 2 \<le> x \<and> x < of_int \<lfloor>x + 1 / 2\<rfloor> + 1 / 2"
  by linarith

subsection \<open>calculateScore\<close>

lemma count_overlap_eq:
  "count_overlap m revs (a, b) = (a + overlap_of m revs, b + agreement_of m revs)"
  by (induction revs arbitrary: a b)
     (auto simp: overlap_of_def agreement_of_def split: option.splits)

lemma userReviewMap_lookup: "userReviewMap userReviews = lookup userReviews"
proof -
  have "foldl (\<lambda>m r. m(appId r \<mapsto> isPositive r)) m0 us =
        m0 ++ map_of (rev (map (\<lambda>r. (appId r, isPositive r)) us))" for m0 us
  proof (induction us arbitrary: m0)
    case Nil
    show ?case by simp
  next
    case (Cons u us)
    have "foldl (\<lambda>m r. m(appId r \<mapsto> isPositive r)) m0 (u # us) =
          foldl (\<lambda>m r. m(appId r \<mapsto> isPositive r)) (m0(appId u \<mapsto> isPositive u)) us"
      by simp
    also have "\<dots> = m0(appId u \<mapsto> isPositive u) ++
          map_of (rev (map (\<lambda>r. (appId r, isPositive r)) us))"
      by (rule Cons.IH)
    also have "\<dots> = m0 ++ map_of (rev (map (\<lambda>r. (appId r, isPositive r)) (u # us)))"
      by (auto simp: map_add_def fun_eq_iff split: option.splits)
    finally show ?case .
  qed
  from this [of Map.empty userReviews] show ?thesis
    by (simp add: userReviewMap_def lookup_def)
qed

lemma target_positive_first:
  "target_positive revs game = (first_verdict revs game = Some True)"
  by (induction revs) (auto simp: target_positive_def first_verdict_def)

lemma score_step_eq:
  "score_step fl m t mo ms (a, b, c) r =
     (if qualifies fl m mo ms r
      then (a + 1, if first_verdict (reviews r) t = Some True then b + 1 else b,
            c + overlap_of m (reviews r))
      else (a, b, c))"
proof (cases "overlap_of m (reviews r) = 0")
  case True
  then have "agreement_of m (reviews r) = 0"
    by (auto simp: overlap_of_def agreement_of_def filter_empty_conv)
  with True show ?thesis
    by (simp add: score_step_def count_overlap_eq qualifies_def js_div_def js_times100_def
          js_ge_def)
next
  case False
  then show ?thesis
    by (simp add: score_step_def count_overlap_eq qualifies_def target_positive_first
          js_div_def js_times100_def js_ge_def)
qed

lemma foldl_score_step:
  "foldl (score_step fl m t mo ms) (a, b, c) rd =
     (a + length (filter (qualifies fl m mo ms) rd),
      b + length (filter (\<lambda>r. first_verdict (reviews r) t = Some True)
                    (filter (qualifies fl m mo ms) rd)),
      c + sum_list (map (\<lambda>r. overlap_of m (reviews r)) (filter (qualifies fl m mo ms) rd)))"
  by (induction rd arbitrary: a b c) (simp_all add: score_step_eq)

text \<open>
  C1, as the code has it. For a reviewer with \<open>overlapCount = 0\<close> the quotient
  \<open>agreementCount / overlapCount\<close> is computed all the same and is \<open>NaN\<close>; no comparison
  with \<open>NaN\<close> holds, so the pass of the loop leaves the three counters as they were:
  such a reviewer never qualifies, whatever \<open>minOverlap\<close> and \<open>minSimilarity\<close> are.
\<close>

theorem zero_overlap_never_qualifies:
  assumes "fst (count_overlap m (reviews r) (0, 0)) = 0"
  shows "js_times100 fl (js_div fl (snd (count_overlap m (reviews r) (0, 0))) 0) = NaN \<and>
         score_step fl m targetAppId min_overlap min_similarity st r = st"
proof -
  from assms have ov: "overlap_of m (reviews r) = 0"
    by (simp add: count_overlap_eq)
  then have "agreement_of m (reviews r) = 0"
    by (auto simp: overlap_of_def agreement_of_def filter_empty_conv)
  with ov show ?thesis
    by (cases st)
       (simp add: score_step_def count_overlap_eq js_div_def js_times100_def js_ge_def)
qed

theorem zero_overlap_never_qualifies_witness:
  "fst (count_overlap (userReviewMap [\<lparr>appId = ''10'', isPositive = True\<rparr>])
          (reviews \<lparr>steamId = ''7'', reviews = [\<lparr>appId = ''20'', isPositive = True\<rparr>]\<rparr>)
          (0, 0)) = 0 \<and>
   score_step fl_exact (userReviewMap [\<lparr>appId = ''10'', isPositive = True\<rparr>]) ''20'' 0 0
     (0, 0, 0) \<lparr>steamId = ''7'', reviews = [\<lparr>appId = ''20'', isPositive = True\<rparr>]\<rparr> = (0, 0, 0)"
proof -
  have h: "fst (count_overlap (userReviewMap [\<lparr>appId = ''10'', isPositive = True\<rparr>])
          (reviews \<lparr>steamId = ''7'', reviews = [\<lparr>appId = ''20'', isPositive = True\<rparr>]\<rparr>)
          (0, 0)) = 0"
    by (simp add: userReviewMap_def)
  from zero_overlap_never_qualifies [OF h, of fl_exact "''20''" 0 0 "(0, 0, 0)"]
  show ?thesis using h by blast
qed

text \<open>
  C1, as the claim states it, fails: with \<open>minOverlap = 0\<close> and \<open>minSimilarity = 0\<close> a
  reviewer who shares no game with the subject does not count as matching.
\<close>

theorem zero_overlap_counterexample:
  "count_overlap (userReviewMap [\<lparr>appId = ''10'', isPositive = True\<rparr>])
     [\<lparr>appId = ''20'', isPositive = True\<rparr>] (0, 0) = (0, 0) \<and>
   matchingReviewers
     (calculateScore fl_exact [\<lparr>appId = ''10'', isPositive = True\<rparr>]
        [\<lparr>steamId = ''7'', reviews = [\<lparr>appId = ''20'', isPositive = True\<rparr>]\<rparr>] ''20'' 0 0) = 0"
  by (simp add: calculateScore_def score_step_def userReviewMap_def js_div_def
        js_times100_def js_ge_def)

text \<open>
  C8, as the code has it. With \<open>matchingReviewers\<close> the number of qualifying reviewers,
  \<open>positiveCount\<close> the number of those whose verdict on the target game is positive and
  the total overlap summed over the qualifying reviewers, the score is 0 and the
  average overlap is 0 when no reviewer qualifies. Otherwise the score is the integer
  nearest (a tie going up) to the double that the script computes for
  \<open>positiveCount / matchingReviewers * 100\<close>, the quotient rounded to a double, times 100
  and rounded again, and the average overlap is \<open>totalOverlap / matchingReviewers\<close>
  rounded to a double.
\<close>

theorem calculateScore_result:
  "let m = lookup userReviews;
       Q = filter (qualifies fl64 m mo ms) collected;
       M = length Q;
       P = length (filter (\<lambda>r. first_verdict (reviews r) targetAppId = Some True) Q);
       T = sum_list (map (\<lambda>r. overlap_of m (reviews r)) Q);
       x = fl64 (fl64 (of_nat P / of_nat M) * 100);
       result = calculateScore fl64 userReviews collected targetAppId mo ms
   in totalReviewers result = length collected \<and>
      matchingReviewers result = M \<and>
      positiveCount result = P \<and>
      minOverlap result = mo \<and>
      minSimilarity result = ms \<and>
      (M = 0 \<longrightarrow> score result = Fin 0 \<and> avgOverlap result = Fin 0) \<and>
      (0 < M \<longrightarrow>
         (\<exists>k. score result = Fin (of_int k) \<and> of_int k - 1 / 2 \<le> x \<and> x < of_int k + 1 / 2) \<and>
         avgOverlap result = Fin (fl64 (of_nat T / of_nat M)))"
proof -
  define m where "m = lookup userReviews"
  define Q where "Q = filter (qualifies fl64 m mo ms) collected"
  define P where "P = length (filter (\<lambda>r. first_verdict (reviews r) targetAppId = Some True) Q)"
  define T where "T = sum_list (map (\<lambda>r. overlap_of m (reviews r)) Q)"
  define x where "x = fl64 (fl64 (of_nat P / of_nat (length Q)) * 100)"
  have r: "calculateScore fl64 userReviews collected targetAppId mo ms =
      \<lparr>score = (if 0 < length Q then Fin (of_int \<lfloor>x + 1 / 2\<rfloor>) else Fin 0),
       totalReviewers = length collected, matchingReviewers = length Q, positiveCount = P,
       avgOverlap = (if 0 < length Q then Fin (fl64 (of_nat T / of_nat (length Q))) else Fin 0),
       minOverlap = mo, minSimilarity = ms\<rparr>"
    by (simp add: calculateScore_def foldl_score_step userReviewMap_lookup m_def Q_def P_def
          T_def x_def js_div_def js_times100_def Math_round_def)
  have "0 < length Q \<Longrightarrow>
      \<exists>k. Fin (of_int \<lfloor>x + 1 / 2\<rfloor>) = Fin (of_int k) \<and> of_int k - 1 / 2 \<le> x \<and> x < of_int k + 1 / 2"
    using nearest_floor [of x] by blast
  then show ?thesis
    unfolding Let_def m_def [symmetric] Q_def [symmetric] P_def [symmetric] T_def [symmetric]
      x_def [symmetric] r
    by simp
qed

lemma qualifies_abd:
  "qualifies fl64 (lookup subject_abc) 2 50 reviewer_abd"
  "\<not> qualifies fl64 (lookup subject_abc) 3 50 reviewer_abd"
  by (auto simp: qualifies_def lookup_def subject_abc_def reviewer_abd_def overlap_of_def
        agreement_of_def fl64_small)

theorem calculateScore_result_witness:
  "calculateScore fl64 subject_abc [reviewer_abd] ''D'' 2 50 =
     \<lparr>score = Fin 100, totalReviewers = 1, matchingReviewers = 1, positiveCount = 1,
      avgOverlap = Fin 2, minOverlap = 2, minSimilarity = 50\<rparr> \<and>
   calculateScore fl64 subject_abc [reviewer_abd] ''D'' 3 50 =
     \<lparr>score = Fin 0, totalReviewers = 1, matchingReviewers = 0, positiveCount = 0,
      avgOverlap = Fin 0, minOverlap = 3, minSimilarity = 50\<rparr>"
proof -
  have fv: "first_verdict (reviews reviewer_abd) ''D'' = Some True"
    by (simp add: first_verdict_def reviewer_abd_def)
  have ov: "overlap_of (lookup subject_abc) (reviews reviewer_abd) = 2"
    by (auto simp: lookup_def subject_abc_def reviewer_abd_def overlap_of_def)
  note t1 = calculateScore_result [of subject_abc 2 50 "[reviewer_abd]" "''D''"]
  note t2 = calculateScore_result [of subject_abc 3 50 "[reviewer_abd]" "''D''"]
  let ?r1 = "calculateScore fl64 subject_abc [reviewer_abd] ''D'' 2 50"
  let ?r2 = "calculateScore fl64 subject_abc [reviewer_abd] ''D'' 3 50"
  from t1 have f1: "totalReviewers ?r1 = 1" "matchingReviewers ?r1 = 1" "positiveCount ?r1 = 1"
    "minOverlap ?r1 = 2" "minSimilarity ?r1 = 50" "avgOverlap ?r1 = Fin 2"
    and k: "\<exists>k. score ?r1 = Fin (of_int k) \<and> of_int k - 1 / 2 \<le> (100::rat) \<and>
                (100::rat) < of_int k + 1 / 2"
    by (simp_all add: Let_def qualifies_abd fv ov fl64_small)
  from k obtain k where s: "score ?r1 = Fin (of_int k)"
    and b: "of_int k - 1 / 2 \<le> (100::rat)" "(100::rat) < of_int k + 1 / 2"
    by blast
  from nearest_unique [OF b] have "k = 100" by (simp add: floor_numeral_div)
  with s have s1: "score ?r1 = Fin 100" by simp
  from t2 have f2: "totalReviewers ?r2 = 1" "matchingReviewers ?r2 = 0" "positiveCount ?r2 = 0"
    "minOverlap ?r2 = 3" "minSimilarity ?r2 = 50" "avgOverlap ?r2 = Fin 0" "score ?r2 = Fin 0"
    by (simp_all add: Let_def qualifies_abd)
  have e1: "?r1 = \<lparr>score = Fin 100, totalReviewers = 1, matchingReviewers = 1, positiveCount = 1,
      avgOverlap = Fin 2, minOverlap = 2, minSimilarity = 50\<rparr>"
    using f1 s1 by (cases ?r1) simp
  have e2: "?r2 = \<lparr>score = Fin 0, totalReviewers = 1, matchingReviewers = 0, positiveCount = 0,
      avgOverlap = Fin 0, minOverlap = 3, minSimilarity = 50\<rparr>"
    using f2 by (cases ?r2) simp
  from e1 e2 show ?thesis by blast
qed

text \<open>
  C8, as the claim states it, fails: the formula is not evaluated exactly. With 23
  positive verdicts among 40 qualifying reviewers \<open>23 / 40 * 100\<close> is \<open>57.5\<close>, which
  rounds to 58; the script computes the double just below \<open>57.5\<close> and returns 57.
\<close>

theorem score_rounding_counterexample:
  "matchingReviewers (calculateScore fl64 [\<lparr>appId = ''A'', isPositive = True\<rparr>] forty ''T'' 1 50) = 40 \<and>
   positiveCount (calculateScore fl64 [\<lparr>appId = ''A'', isPositive = True\<rparr>] forty ''T'' 1 50) = 23 \<and>
   score (calculateScore fl64 [\<lparr>appId = ''A'', isPositive = True\<rparr>] forty ''T'' 1 50) = Fin 57 \<and>
   Math_round (Fin (23 / 40 * 100)) = Fin 58"
proof -
  let ?m = "userReviewMap [\<lparr>appId = ''A'', isPositive = True\<rparr>]"
  have q: "qualifies fl64 ?m 1 50 likes" "qualifies fl64 ?m 1 50 dislikes"
    by (auto simp: qualifies_def userReviewMap_def likes_def dislikes_def overlap_of_def
          agreement_of_def fl64_small)
  have v: "first_verdict (reviews likes) ''T'' = Some True"
    "first_verdict (reviews dislikes) ''T'' = Some False"
    by (simp_all add: first_verdict_def likes_def dislikes_def)
  have f: "foldl (score_step fl64 ?m ''T'' 1 50) (0, 0, 0) forty =
      (40, 23, sum_list (map (\<lambda>r. overlap_of ?m (reviews r)) forty))"
    by (simp add: foldl_score_step forty_def q v)
  have s: "Math_round (js_times100 fl64 (js_div fl64 23 40)) = Fin 57"
    by (simp add: js_div_def js_times100_def Math_round_def fl64_23_40 floor_numeral_div)
  have x: "Math_round (Fin (23 / 40 * 100)) = Fin 58"
    by (simp add: Math_round_def floor_numeral_div)
  from f s x show ?thesis
    by (simp add: calculateScore_def)
qed

subsection \<open>parseReviewsFromHTML\<close>

lemma review_eq_pair:
  "(appId r = a \<and> isPositive r = b) = ((r::review) = \<lparr>appId = a, isPositive = b\<rparr>)"
  by (cases r) auto

lemma find_pair_None:
  "(find (\<lambda>r. appId r = a \<and> isPositive r = b) revs = None) =
   (\<lparr>appId = a, isPositive = b\<rparr> \<notin> set revs)"
  by (simp add: find_None_iff review_eq_pair)

lemma rmatch_Seq_elim:
  assumes "y \<in> set (rmatch ic (Seq a b) x)"
  obtains z where "z \<in> set (rmatch ic a x)" and "y \<in> set (rmatch ic b z)"
  using assms by auto

lemma rmatch_Group_sets:
  "y \<in> set (rmatch ic (Group n a) x) \<Longrightarrow> fst y n \<noteq> None"
  by (cases x) auto

lemma rmatch_appLink_group1:
  assumes "y \<in> set (rmatch ic (source appLinkPattern) x)"
  shows "fst y 1 \<noteq> None"
proof -
  from assms obtain z1 where
    "y \<in> set (rmatch ic (seqs [Star (\<lambda>c. c \<noteq> dquote), Lit ''/app/'', Group 1 (Plus isDigit)]) z1)"
    unfolding appLinkPattern_def seqs.simps regexp.simps by (rule rmatch_Seq_elim)
  then obtain z2 where
    "y \<in> set (rmatch ic (seqs [Lit ''/app/'', Group 1 (Plus isDigit)]) z2)"
    unfolding seqs.simps by (rule rmatch_Seq_elim)
  then obtain z3 where
    "y \<in> set (rmatch ic (seqs [Group 1 (Plus isDigit)]) z3)"
    unfolding seqs.simps by (rule rmatch_Seq_elim)
  then obtain z4 where "z4 \<in> set (rmatch ic (Group 1 (Plus isDigit)) z3)"
    and "y \<in> set (rmatch ic Eps z4)"
    unfolding seqs.simps by (rule rmatch_Seq_elim)
  then show ?thesis
    using rmatch_Group_sets [of z4 ic 1 "Plus isDigit" z3] by simp
qed

lemma exec_appLink_group1:
  assumes "exec_at ic (source appLinkPattern) s = Some (caps, n)"
  shows "caps 1 \<noteq> None"
proof -
  from assms obtain r rest where
    "rmatch ic (source appLinkPattern) (Map.empty, s) = (caps, r) # rest"
    by (auto simp: exec_at_def split: list.splits)
  then have "(caps, r) \<in> set (rmatch ic (source appLinkPattern) (Map.empty, s))"
    by simp
  from rmatch_appLink_group1 [OF this] show ?thesis
    by simp
qed

lemma matchAll_from_group1:
  assumes ex: "\<And>s caps n. exec_at ic re s = Some (caps, n) \<Longrightarrow> caps (1::nat) \<noteq> None"
  shows "(i, caps) \<in> set (matchAll_from ic re idx k s) \<Longrightarrow> caps 1 \<noteq> None"
proof (induction s arbitrary: idx k)
  case Nil
  show ?case
  proof (cases "exec_at ic re []")
    case None
    with Nil show ?thesis by (cases k) simp_all
  next
    case (Some a)
    with Nil ex [of "[]" "fst a" "snd a"] show ?thesis by (cases a; cases k) simp_all
  qed
next
  case (Cons c s)
  show ?case
  proof (cases k)
    case 0
    show ?thesis
    proof (cases "exec_at ic re (c # s)")
      case None
      with Cons 0 show ?thesis by simp
    next
      case (Some a)
      with Cons 0 ex [of "c # s" "fst a" "snd a"] show ?thesis by (cases a) auto
    qed
  next
    case (Suc j)
    with Cons show ?thesis by simp
  qed
qed

lemma links_last_group1:
  assumes "links_in s \<noteq> []"
  shows "snd (last (links_in s)) 1 \<noteq> None"
proof -
  from assms have "last (links_in s) \<in> set (matchAll_from True (source appLinkPattern) 0 0 s)"
    by (simp add: links_in_def)
  then have "(fst (last (links_in s)), snd (last (links_in s)))
      \<in> set (matchAll_from True (source appLinkPattern) 0 0 s)"
    by simp
  then show ?thesis
    by (rule matchAll_from_group1 [rotated]) (rule exec_appLink_group1)
qed

lemma matchAll_from_index:
  "(i, caps) \<in> set (matchAll_from ic re idx k s) \<Longrightarrow> idx \<le> i \<and> i \<le> idx + length s"
proof (induction s arbitrary: idx k)
  case Nil
  then show ?case by (cases k; cases "exec_at ic re []") (auto split: if_splits)
next
  case (Cons c s)
  show ?case
  proof (cases k)
    case 0
    show ?thesis
    proof (cases "exec_at ic re (c # s)")
      case None
      with Cons.prems 0 have "(i, caps) \<in> set (matchAll_from ic re (idx + 1) 0 s)" by simp
      from Cons.IH [OF this] show ?thesis by simp
    next
      case (Some a)
      with Cons.prems 0 have "i = idx \<or> (i, caps) \<in> set (matchAll_from ic re (idx + 1) (snd a - 1) s)"
        by (cases a) auto
      then show ?thesis
      proof
        assume "i = idx" then show ?thesis by simp
      next
        assume "(i, caps) \<in> set (matchAll_from ic re (idx + 1) (snd a - 1) s)"
        from Cons.IH [OF this] show ?thesis by simp
      qed
    qed
  next
    case (Suc j)
    with Cons.prems have "(i, caps) \<in> set (matchAll_from ic re (idx + 1) j s)" by simp
    from Cons.IH [OF this] show ?thesis by simp
  qed
qed

lemma vote_marker_index:
  "m \<in> set (vote_markers html) \<Longrightarrow> fst m \<le> length html"
  using matchAll_from_index [of "fst m" "snd m" True "source reviewImgPattern" 0 0 html]
  by (simp add: vote_markers_def)

lemma substring_window:
  "i \<le> length html \<Longrightarrow> substring html (i - 2000) i = lookback_window html i"
  by (auto simp: substring_def lookback_window_def lookback_def list_eq_iff_nth_eq)

lemma matchAll_patterns:
  "matchAll reviewImgPattern s = Inr (vote_markers s)"
  "matchAll appLinkPattern s = Inr (links_in s)"
  by (simp_all add: matchAll_def reviewImgPattern_def appLinkPattern_def vote_markers_def
        links_in_def)

lemma parse_marker_eq:
  assumes "fst marker \<le> length html"
  shows "parse_marker html (revs, skipped) marker =
     Inr (case resolve html marker of
            None \<Rightarrow> (revs, skipped @ [(snd marker 2, fst marker)])
          | Some r \<Rightarrow> (insert_new revs r, skipped))"
  using links_last_group1 [of "lookback_window html (fst marker)"] assms
  by (cases marker)
     (auto simp: parse_marker_def resolve_def nearest_link_def Let_def insert_new_def
           find_pair_None substring_window matchAll_patterns
           split: list.splits option.splits)

lemma resolve_None: "(resolve html m = None) = unresolved html m"
  using links_last_group1 [of "lookback_window html (fst m)"]
  by (auto simp: resolve_def nearest_link_def unresolved_def split: list.splits)

lemma foldl_marker_step:
  assumes "\<forall>m\<in>set ms. fst m \<le> length html"
  shows "foldl (marker_step html) (revs, skipped) ms =
     (foldl insert_new revs (List.map_filter (resolve html) ms),
      skipped @ map (\<lambda>m. (snd m 2, fst m)) (filter (unresolved html) ms))"
  using assms
proof (induction ms arbitrary: revs skipped)
  case Nil
  show ?case by (simp add: List.map_filter_simps)
next
  case (Cons m ms)
  then have le: "fst m \<le> length html" and rest: "\<forall>m\<in>set ms. fst m \<le> length html"
    by simp_all
  show ?case
  proof (cases "resolve html m")
    case None
    then have u: "unresolved html m" by (simp add: resolve_None)
    show ?thesis
      using None u Cons.IH [OF rest]
      by (simp add: marker_step_def parse_marker_eq [OF le] List.map_filter_simps)
  next
    case (Some r)
    then have u: "\<not> unresolved html m" by (simp add: resolve_None [symmetric])
    show ?thesis
      using Some u Cons.IH [OF rest]
      by (simp add: marker_step_def parse_marker_eq [OF le] List.map_filter_simps)
  qed
qed

lemma set_keep_first: "set (keep_first xs) = set xs"
  by (induction xs rule: keep_first.induct) auto

lemma distinct_keep_first: "distinct (keep_first xs)"
  by (induction xs rule: keep_first.induct) (auto simp: set_keep_first)

lemma foldl_insert_new:
  "foldl insert_new acc xs = acc @ keep_first (filter (\<lambda>x. x \<notin> set acc) xs)"
proof (induction xs arbitrary: acc)
  case Nil
  show ?case by simp
next
  case (Cons x xs)
  show ?case
  proof (cases "x \<in> set acc")
    case True
    then show ?thesis using Cons.IH [of acc] by (simp add: insert_new_def)
  next
    case False
    have "filter (\<lambda>y. y \<noteq> x) (filter (\<lambda>y. y \<notin> set acc) xs) =
          filter (\<lambda>y. y \<notin> set (acc @ [x])) xs"
      by (auto intro: filter_cong)
    with False show ?thesis using Cons.IH [of "acc @ [x]"] by (simp add: insert_new_def)
  qed
qed

lemma parse_markers_eq:
  "parse_markers html =
     Inr (keep_first (List.map_filter (resolve html) (vote_markers html)),
          map (\<lambda>m. (snd m 2, fst m)) (filter (unresolved html) (vote_markers html)))"
  using foldl_marker_step [of "vote_markers html" html "[]" "[]"]
  by (simp add: parse_markers_def matchAll_patterns vote_marker_index foldl_insert_new)

lemma parseReviewsFromHTML_eq:
  "parseReviewsFromHTML html = keep_first (List.map_filter (resolve html) (vote_markers html))"
  by (simp add: parseReviewsFromHTML_def parse_markers_eq)

lemma img_no_match:
  "toUpper c \<noteq> CHR ''<'' \<Longrightarrow> exec_at True (source reviewImgPattern) (c # s) = None"
  by (simp add: exec_at_def reviewImgPattern_def canonicalize_def)

lemma link_no_match:
  "toUpper c \<noteq> CHR ''H'' \<Longrightarrow> exec_at True (source appLinkPattern) (c # s) = None"
  by (simp add: exec_at_def appLinkPattern_def canonicalize_def)

lemma no_match_empty:
  "exec_at True (source reviewImgPattern) [] = None"
  "exec_at True (source appLinkPattern) [] = None"
  by (simp_all add: exec_at_def reviewImgPattern_def appLinkPattern_def)

lemma matchAll_from_none:
  assumes "\<forall>c\<in>set s. \<forall>s'. exec_at ic re (c # s') = None" and "exec_at ic re [] = None"
  shows "matchAll_from ic re idx k s = []"
  using assms by (induction s arbitrary: idx k) auto

lemma matchAll_from_skip:
  assumes "\<forall>c\<in>set pre. \<forall>s'. exec_at ic re (c # s') = None"
  shows "matchAll_from ic re idx 0 (pre @ rest) = matchAll_from ic re (idx + length pre) 0 rest"
  using assms by (induction pre arbitrary: idx) auto

lemma thumb_exec:
  "exec_at True (source reviewImgPattern) (thumb ''Up'') =
     Some ([2 \<mapsto> ''Up'', 1 \<mapsto> ''icon_thumbsUp''], 24)"
  by (simp add: exec_at_def reviewImgPattern_def thumb_def canonicalize_def)

lemma link_exec:
  "exec_at True (source appLinkPattern) (app_link ''10'' @ F) = Some ([1 \<mapsto> ''10''], 13)"
  by (simp add: exec_at_def appLinkPattern_def app_link_def canonicalize_def isDigit_def)

lemma links_none:
  assumes "\<forall>c\<in>set w. toUpper c \<noteq> CHR ''H''"
  shows "links_in w = []"
  unfolding links_in_def using assms
  by (intro matchAll_from_none) (simp_all add: link_no_match no_match_empty)

lemma matchAll_from_single:
  assumes "s = c # r" and "exec_at ic re s = Some (caps, n)"
    and "matchAll_from ic re (idx + 1) (n - 1) r = []"
  shows "matchAll_from ic re idx 0 s = [(idx, caps)]"
  using assms by simp

lemma thumb_markers:
  "matchAll_from True (source reviewImgPattern) idx 0 (thumb ''Up'') =
     [(idx, [2 \<mapsto> ''Up'', 1 \<mapsto> ''icon_thumbsUp''])]"
proof -
  have t: "thumb ''Up'' = CHR ''<'' # tl (thumb ''Up'')"
    by (simp add: thumb_def)
  have "matchAll_from True (source reviewImgPattern) (idx + 1) (24 - 1) (tl (thumb ''Up'')) = []"
    by (rule matchAll_from_none) (simp_all add: thumb_def img_no_match no_match_empty)
  with t thumb_exec show ?thesis
    by (rule matchAll_from_single)
qed

lemma vote_markers_far:
  "vote_markers (far_page n) = [(14 + n, [2 \<mapsto> ''Up'', 1 \<mapsto> ''icon_thumbsUp''])]"
proof -
  have "matchAll_from True (source reviewImgPattern) 0 0
          ((app_link ''10'' @ replicate n (CHR ''x'')) @ thumb ''Up'') =
        matchAll_from True (source reviewImgPattern)
          (0 + length (app_link ''10'' @ replicate n (CHR ''x''))) 0 (thumb ''Up'')"
    by (rule matchAll_from_skip) (auto simp: app_link_def img_no_match)
  then show ?thesis
    by (simp add: vote_markers_def far_page_def thumb_markers) (simp add: app_link_def)
qed

lemma links_near:
  "links_in (app_link ''10'' @ replicate n (CHR ''x'')) = [(0, [1 \<mapsto> ''10''])]"
proof -
  let ?w = "app_link ''10'' @ replicate n (CHR ''x'')"
  have t: "?w = CHR ''h'' # tl ?w"
    by (simp add: app_link_def)
  have "matchAll_from True (source appLinkPattern) (0 + 1) (13 - 1) (tl ?w) = []"
    by (rule matchAll_from_none) (auto simp: app_link_def link_no_match no_match_empty)
  with t link_exec [of "replicate n (CHR ''x'')"] show ?thesis
    unfolding links_in_def by (rule matchAll_from_single)
qed

lemma window_far:
  "lookback_window (far_page n) (14 + n) =
     drop (n - 1986) (app_link ''10'' @ replicate n (CHR ''x''))"
proof -
  have len: "length (app_link ''10'') = 14" by (simp add: app_link_def)
  have "14 + n \<le> length (far_page n)" by (simp add: far_page_def len)
  from substring_window [OF this, symmetric] show ?thesis
    by (simp add: substring_def far_page_def len)
qed

lemma links_far:
  "links_in (lookback_window (far_page n) (14 + n)) =
     (if n \<le> 1986 then [(0, [1 \<mapsto> ''10''])] else [])"
proof (cases "n \<le> 1986")
  case True
  then show ?thesis by (simp add: window_far links_near)
next
  case False
  then obtain k where k: "n - 1986 = Suc k" by (cases "n - 1986") auto
  have "set (drop (n - 1986) (app_link ''10'' @ replicate n (CHR ''x''))) \<subseteq>
        set (tl (app_link ''10'' @ replicate n (CHR ''x'')))"
    unfolding k drop_Suc by (rule set_drop_subset)
  then have "\<forall>c\<in>set (lookback_window (far_page n) (14 + n)). toUpper c \<noteq> CHR ''H''"
    by (auto simp: window_far app_link_def)
  with False show ?thesis by (simp add: links_none)
qed

lemma parse_far_page:
  "parse_markers (far_page n) =
     Inr (if n \<le> 1986 then ([\<lparr>appId = ''10'', isPositive = True\<rparr>], [])
          else ([], [(Some ''Up'', 14 + n)]))"
  by (simp add: parse_markers_eq vote_markers_far resolve_def nearest_link_def unresolved_def
        links_far List.map_filter_simps)

lemma parse_page_skip:
  "parse_markers page_skip =
     Inr ([\<lparr>appId = ''10'', isPositive = True\<rparr>], [(Some ''Down'', 0)])"
  by code_simp

lemma parse_page_repeat:
  "parseReviewsFromHTML page_repeat =
     [\<lparr>appId = ''1'', isPositive = True\<rparr>, \<lparr>appId = ''2'', isPositive = True\<rparr>]"
  by code_simp

text \<open>
  C9. The extractor never raises, whatever the page is: the body of no vote marker
  throws, so nothing reaches the inner \<open>catch\<close>, and nothing reaches the outer one. It
  returns the reviews of the markers that resolve, each of them, in page order with
  the first of equal ones kept, and lists as skipped (\<open>skipReasons.noAppId\<close>) exactly
  the unresolved markers, those with no link among the 2000 code units before them. A
  resolved marker is paired with the game of the last link in that window. So on a
  page made of a link to game 10, \<open>n\<close> other code units and a thumbs-up image the
  marker is at position \<open>14 + n\<close>: up to \<open>n = 1986\<close> the link lies in the window and the
  review is returned, and from \<open>n = 1987\<close> on the marker is skipped.
\<close>

theorem parseReviewsFromHTML_total:
  "(\<forall>m\<in>set (vote_markers html). \<exists>st1. parse_marker html st m = Inr st1) \<and>
   (\<forall>m\<in>set (vote_markers html). \<forall>r.
      resolve html m = Some r \<longrightarrow> r \<in> set (parseReviewsFromHTML html)) \<and>
   parse_markers html =
     Inr (parseReviewsFromHTML html,
          map (\<lambda>m. (snd m 2, fst m)) (filter (unresolved html) (vote_markers html))) \<and>
   parseReviewsFromHTML html =
     keep_first (List.map_filter (resolve html) (vote_markers html)) \<and>
   parse_markers (far_page n) =
     Inr (if n \<le> 1986 then ([\<lparr>appId = ''10'', isPositive = True\<rparr>], [])
          else ([], [(Some ''Up'', 14 + n)]))"
proof (intro conjI ballI allI impI)
  fix m assume "m \<in> set (vote_markers html)"
  then have "fst m \<le> length html" by (rule vote_marker_index)
  then show "\<exists>st1. parse_marker html st m = Inr st1"
    by (cases st) (simp add: parse_marker_eq)
next
  fix m r assume "m \<in> set (vote_markers html)" and "resolve html m = Some r"
  then show "r \<in> set (parseReviewsFromHTML html)"
    by (force simp: parseReviewsFromHTML_eq set_keep_first List.map_filter_def)
next
  show "parse_markers html =
     Inr (parseReviewsFromHTML html,
          map (\<lambda>m. (snd m 2, fst m)) (filter (unresolved html) (vote_markers html)))"
    by (simp add: parseReviewsFromHTML_eq parse_markers_eq)
next
  show "parseReviewsFromHTML html =
     keep_first (List.map_filter (resolve html) (vote_markers html))"
    by (rule parseReviewsFromHTML_eq)
next
  show "parse_markers (far_page n) =
     Inr (if n \<le> 1986 then ([\<lparr>appId = ''10'', isPositive = True\<rparr>], [])
          else ([], [(Some ''Up'', 14 + n)]))"
    by (rule parse_far_page)
qed

theorem parseReviewsFromHTML_total_witness:
  "vote_markers (far_page 1986) = [(2000, [2 \<mapsto> ''Up'', 1 \<mapsto> ''icon_thumbsUp''])] \<and>
   (\<exists>st1. parse_marker (far_page 1986) ([], [])
            (2000, [2 \<mapsto> ''Up'', 1 \<mapsto> ''icon_thumbsUp'']) = Inr st1) \<and>
   resolve (far_page 1986) (2000, [2 \<mapsto> ''Up'', 1 \<mapsto> ''icon_thumbsUp'']) =
     Some \<lparr>appId = ''10'', isPositive = True\<rparr> \<and>
   \<lparr>appId = ''10'', isPositive = True\<rparr> \<in> set (parseReviewsFromHTML (far_page 1986)) \<and>
   parseReviewsFromHTML (far_page 1986) = [\<lparr>appId = ''10'', isPositive = True\<rparr>] \<and>
   parse_markers (far_page 1987) = Inr ([], [(Some ''Up'', 2001)]) \<and>
   parseReviewsFromHTML (far_page 1987) = [] \<and>
   parse_markers page_skip =
     Inr ([\<lparr>appId = ''10'', isPositive = True\<rparr>], [(Some ''Down'', 0)])"
proof -
  note t1 = parseReviewsFromHTML_total [of "far_page 1986" "([], [])" 1986]
  note t2 = parseReviewsFromHTML_total [of "far_page 1987" "([], [])" 1987]
  have v: "vote_markers (far_page 1986) = [(2000, [2 \<mapsto> ''Up'', 1 \<mapsto> ''icon_thumbsUp''])]"
    by (simp add: vote_markers_far)
  then have "(2000, [2 \<mapsto> ''Up'', 1 \<mapsto> ''icon_thumbsUp'']) \<in> set (vote_markers (far_page 1986))"
    by simp
  then have mem: "(2000, [2 \<mapsto> ''Up'', 1 \<mapsto> ''icon_thumbsUp'']) \<in> set (vote_markers (far_page 1986))"
    by simp
  with t1 have r1: "\<exists>st1. parse_marker (far_page 1986) ([], [])
            (2000, [2 \<mapsto> ''Up'', 1 \<mapsto> ''icon_thumbsUp'']) = Inr st1"
    by blast
  have rs: "resolve (far_page 1986) (2000, [2 \<mapsto> ''Up'', 1 \<mapsto> ''icon_thumbsUp'']) =
      Some \<lparr>appId = ''10'', isPositive = True\<rparr>"
    using links_far [of 1986] by (simp add: resolve_def nearest_link_def)
  from t1 mem rs have r5: "\<lparr>appId = ''10'', isPositive = True\<rparr> \<in> set (parseReviewsFromHTML (far_page 1986))"
    by blast
  from t1 have a1: "parse_markers (far_page 1986) =
      Inr (parseReviewsFromHTML (far_page 1986),
           map (\<lambda>m. (snd m 2, fst m))
             (filter (unresolved (far_page 1986)) (vote_markers (far_page 1986))))"
    and b1: "parse_markers (far_page 1986) =
      Inr (if (1986::nat) \<le> 1986 then ([\<lparr>appId = ''10'', isPositive = True\<rparr>], [])
           else ([], [(Some ''Up'', 14 + 1986)]))"
    by blast+
  from b1 have "parse_markers (far_page 1986) = Inr ([\<lparr>appId = ''10'', isPositive = True\<rparr>], [])"
    by simp
  with a1 have r2: "parseReviewsFromHTML (far_page 1986) = [\<lparr>appId = ''10'', isPositive = True\<rparr>]"
    by simp
  from t2 have a2: "parse_markers (far_page 1987) =
      Inr (parseReviewsFromHTML (far_page 1987),
           map (\<lambda>m. (snd m 2, fst m))
             (filter (unresolved (far_page 1987)) (vote_markers (far_page 1987))))"
    and b2: "parse_markers (far_page 1987) =
      Inr (if (1987::nat) \<le> 1986 then ([\<lparr>appId = ''10'', isPositive = True\<rparr>], [])
           else ([], [(Some ''Up'', 14 + 1987)]))"
    by blast+
  from b2 have r3: "parse_markers (far_page 1987) = Inr ([], [(Some ''Up'', 2001)])"
    by simp
  with a2 have r4: "parseReviewsFromHTML (far_page 1987) = []"
    by simp
  from v r1 rs r5 r2 r3 r4 parse_page_skip show ?thesis by blast
qed

text \<open>
  C2, as the code has it. The reviews of one parse pass are those of the resolved
  markers in page order with every repetition of an earlier pair \<open>(appId, isPositive)\<close>
  dropped: no pair is recorded twice, and the first entry of a pair keeps its place.
  A game can be recorded with both verdicts.
\<close>

theorem parseReviewsFromHTML_distinct:
  "distinct (parseReviewsFromHTML html) \<and>
   parseReviewsFromHTML html =
     keep_first (List.map_filter (resolve html) (vote_markers html))"
  by (simp add: parseReviewsFromHTML_eq distinct_keep_first)

theorem parseReviewsFromHTML_distinct_witness:
  "keep_first (List.map_filter (resolve page_repeat) (vote_markers page_repeat)) =
     [\<lparr>appId = ''1'', isPositive = True\<rparr>, \<lparr>appId = ''2'', isPositive = True\<rparr>]"
  using parseReviewsFromHTML_distinct [of page_repeat] by (simp add: parse_page_repeat)

text \<open>
  C2, as the claim states it, fails: a link to game 10 followed by a thumbs-up and a
  thumbs-down image gives both verdicts for game 10.
\<close>

theorem contradictory_verdicts_counterexample:
  "parseReviewsFromHTML page_both =
     [\<lparr>appId = ''10'', isPositive = True\<rparr>, \<lparr>appId = ''10'', isPositive = False\<rparr>]"
  by code_simp

subsection \<open>fetchWithRetry and fetchAllReviewsFromProfile\<close>

lemma fetchWithRetry_ok:
  assumes "cancelAt e = None" and "net e (length (requests w)) url = Ok text"
  shows "fetchWithRetry e url 3 w =
           (Inr (Some text), w\<lparr>checks := checks w + 1, requests := requests w @ [url]\<rparr>)"
  using assms by (simp add: fetchWithRetry_def numeral_3_eq_3 shouldCancel_def)

lemma fetchWithRetry_cancelled:
  assumes "cancelAt e = Some c" and "c \<le> checks w"
  shows "fetchWithRetry e url (Suc n) w = (Inl (Error ''Cancelled''), w\<lparr>checks := checks w + 1\<rparr>)"
  using assms by (simp add: fetchWithRetry_def shouldCancel_def)

lemma fetchWithRetry_fails:
  assumes "cancelAt e = None"
    and "\<forall>k<3. is_failure (net e (length (requests w) + k) url)"
  shows "fetchWithRetry e url 3 w =
           (Inl (error_of (net e (length (requests w) + 2) url)),
            w\<lparr>checks := checks w + 3, requests := requests w @ [url, url, url]\<rparr>)"
proof -
  from assms(2) have f0: "is_failure (net e (length (requests w)) url)"
    and f1: "is_failure (net e (length (requests w) + 1) url)"
    and f2: "is_failure (net e (length (requests w) + 2) url)"
    by (simp_all add: All_less_Suc numeral_3_eq_3)
  then show ?thesis
    using assms(1)
    by (auto simp: fetchWithRetry_def numeral_3_eq_3 shouldCancel_def is_failure_def
          split: fetch_outcome.splits)
qed

lemma fetchWithRetry_fetched:
  "fst (fetchWithRetry e url 3 w) =
     (case fetched e url w of
        Body text \<Rightarrow> Inr (Some text)
      | TransportError \<Rightarrow> Inl (error_of (net e (length (requests w) + 2) url))
      | CancelRequested \<Rightarrow> Inl (Error ''Cancelled''))"
  by (simp add: fetchWithRetry_def numeral_3_eq_3 shouldCancel_def fetched_def flag_set_def
        Let_def add.commute
      split: fetch_outcome.splits option.splits)

lemma pages_loop_raise:
  assumes "page \<le> maxPages" and "fetchWithRetry e (page_url b page) 3 w = (Inl err, w1)"
  shows "pages_loop e b page acc w = ((acc, page), w1)"
  using assms by (simp add: pages_loop.simps [of e b page])

lemma pages_loop_step:
  assumes "page \<le> maxPages" and "fetchWithRetry e (page_url b page) 3 w = (Inr html, w1)"
    and "revs = (case html of None \<Rightarrow> [] | Some h \<Rightarrow> parseReviewsFromHTML h)"
  shows "pages_loop e b page acc w =
           (if length revs < 10 then ((acc @ revs, page), w1)
            else pages_loop e b (page + 1) (acc @ revs) w1)"
proof (cases "revs = []")
  case True
  with assms show ?thesis by (simp add: pages_loop.simps [of e b page])
next
  case False
  with assms show ?thesis by (simp add: pages_loop.simps [of e b page] Let_def)
qed

lemma pages_loop_page_mono:
  "page \<le> snd (fst (pages_loop e b page acc w))"
proof (induction e b page acc w rule: pages_loop.induct)
  case (1 e baseUrl page allReviews w)
  show ?case
  proof (cases "page \<le> maxPages")
    case False
    then show ?thesis by (simp add: pages_loop.simps)
  next
    case True
    obtain r w1 where f: "fetchWithRetry e (page_url baseUrl page) 3 w = (r, w1)"
      by (cases "fetchWithRetry e (page_url baseUrl page) 3 w")
    show ?thesis
    proof (cases r)
      case (Inl err)
      with True f show ?thesis by (simp add: pages_loop.simps [of e baseUrl page])
    next
      case (Inr html)
      define revs where "revs = (case html of None \<Rightarrow> [] | Some h \<Rightarrow> parseReviewsFromHTML h)"
      show ?thesis
      proof (cases "length revs < 10")
        case True
        with \<open>page \<le> maxPages\<close> f Inr show ?thesis
          by (simp add: pages_loop.simps [of e baseUrl page] revs_def Let_def)
      next
        case False
        then have nz: "length revs \<noteq> 0" by auto
        from "1.IH" [OF \<open>page \<le> maxPages\<close> f [symmetric] Inr revs_def nz False]
        have "page + 1 \<le> snd (fst (pages_loop e baseUrl (page + 1) (allReviews @ revs) w1))"
          .
        with False \<open>page \<le> maxPages\<close> f Inr show ?thesis
          by (simp add: pages_loop.simps [of e baseUrl page] revs_def Let_def)
      qed
    qed
  qed
qed

lemma pages_loop_beyond: "maxPages < page \<Longrightarrow> pages_loop e b page acc w = ((acc, page), w)"
  by (simp add: pages_loop.simps)

lemma pages_loop_stops_iff:
  assumes "page \<le> maxPages"
  shows "(snd (fst (pages_loop e b page acc w)) = page) =
         ends_pagination (fetched e (page_url b page) w)"
proof -
  obtain r w1 where f: "fetchWithRetry e (page_url b page) 3 w = (r, w1)"
    by (cases "fetchWithRetry e (page_url b page) 3 w")
  with fetchWithRetry_fetched [of e "page_url b page" w]
  have r: "r = (case fetched e (page_url b page) w of
        Body text \<Rightarrow> Inr (Some text)
      | TransportError \<Rightarrow> Inl (error_of (net e (length (requests w) + 2) (page_url b page)))
      | CancelRequested \<Rightarrow> Inl (Error ''Cancelled''))"
    by simp
  show ?thesis
  proof (cases "fetched e (page_url b page) w")
    case (Body body)
    with r have Inr: "r = Inr (Some body)" by simp
    define revs where "revs = (case Some body of None \<Rightarrow> [] | Some h \<Rightarrow> parseReviewsFromHTML h)"
    then have rv: "revs = parseReviewsFromHTML body" by simp
    show ?thesis
    proof (cases "length revs < 10")
      case True
      with Body rv show ?thesis
        by (simp add: pages_loop_step [OF assms f [unfolded Inr] revs_def] ends_pagination_def)
    next
      case False
      have "page + 1 \<le> snd (fst (pages_loop e b (page + 1) (acc @ revs) w1))"
        by (rule pages_loop_page_mono)
      with False Body rv show ?thesis
        by (simp add: pages_loop_step [OF assms f [unfolded Inr] revs_def] ends_pagination_def)
    qed
  next
    case TransportError
    with r f assms show ?thesis
      by (simp add: pages_loop.simps [of e b page] ends_pagination_def)
  next
    case CancelRequested
    with r f assms show ?thesis
      by (simp add: pages_loop.simps [of e b page] ends_pagination_def)
  qed
qed

lemma fetched_cancelled: "flag_set e (checks w) \<Longrightarrow> fetched e url w = CancelRequested"
  by (simp add: fetched_def)

lemma fetched_fails:
  assumes "cancelAt e = None"
    and "\<forall>k<3. is_failure (net e (length (requests w) + k) url)"
  shows "fetched e url w = TransportError"
proof -
  from assms(2) have "is_failure (net e (length (requests w)) url)"
    and "is_failure (net e (length (requests w) + 1) url)"
    and "is_failure (net e (length (requests w) + 2) url)"
    by (simp_all add: All_less_Suc numeral_3_eq_3)
  with assms(1) show ?thesis
    by (auto simp: fetched_def flag_set_def is_failure_def split: fetch_outcome.splits)
qed

lemma map_upt_shift: "map f [0..<Suc n] = f 0 # map (\<lambda>i. f (Suc i)) [0..<n]"
  by (induction n) simp_all

lemma pages_run:
  assumes nc: "cancelAt e = None"
  shows "hs \<noteq> [] \<Longrightarrow> page + length hs \<le> Suc maxPages \<Longrightarrow>
    (\<forall>i<length hs. net e (length (requests w) + i) (page_url b (page + i)) = Ok (hs ! i)) \<Longrightarrow>
    (\<forall>i<length hs - 1. 10 \<le> length (parseReviewsFromHTML (hs ! i))) \<Longrightarrow>
    length (parseReviewsFromHTML (last hs)) < 10 \<or> page + length hs = Suc maxPages \<Longrightarrow>
    pages_loop e b page acc w =
      ((acc @ concat (map parseReviewsFromHTML hs),
        if length (parseReviewsFromHTML (last hs)) < 10 then page + length hs - 1 else Suc maxPages),
       w\<lparr>checks := checks w + length hs,
         requests := requests w @ map (\<lambda>i. page_url b (page + i)) [0..<length hs]\<rparr>)"
proof (induction hs arbitrary: page acc w)
  case Nil
  then show ?case by simp
next
  case (Cons h hs)
  from Cons.prems(2) have le: "page \<le> maxPages" by simp
  from Cons.prems(3) have "net e (length (requests w) + 0) (page_url b (page + 0)) = Ok ((h # hs) ! 0)"
    by blast
  then have n0: "net e (length (requests w)) (page_url b page) = Ok h" by simp
  let ?w1 = "w\<lparr>checks := checks w + 1, requests := requests w @ [page_url b page]\<rparr>"
  have f: "fetchWithRetry e (page_url b page) 3 w = (Inr (Some h), ?w1)"
    using nc n0 by (rule fetchWithRetry_ok)
  show ?case
  proof (cases "hs = []")
    case True
    show ?thesis
    proof (cases "length (parseReviewsFromHTML h) < 10")
      case lt: True
      with True show ?thesis
        by (simp add: pages_loop_step [OF le f refl])
    next
      case False
      with Cons.prems(5) True have pm: "page = maxPages" by simp
      have "pages_loop e b page acc w =
              pages_loop e b (page + 1) (acc @ parseReviewsFromHTML h) ?w1"
        using False by (simp add: pages_loop_step [OF le f refl])
      also have "\<dots> = ((acc @ parseReviewsFromHTML h, page + 1), ?w1)"
        using pm by (intro pages_loop_beyond) simp
      finally show ?thesis
        using True False pm by simp
    qed
  next
    case False
    from Cons.prems(4) False have full: "10 \<le> length (parseReviewsFromHTML h)"
      by (cases hs) auto
    have p3: "\<forall>i<length hs. net e (length (requests ?w1) + i) (page_url b (page + 1 + i)) = Ok (hs ! i)"
    proof (intro allI impI)
      fix i assume "i < length hs"
      with Cons.prems(3) have "net e (length (requests w) + Suc i) (page_url b (page + Suc i)) = Ok ((h # hs) ! Suc i)"
        by (metis Suc_less_eq length_Cons)
      then show "net e (length (requests ?w1) + i) (page_url b (page + 1 + i)) = Ok (hs ! i)"
        by simp
    qed
    have p4: "\<forall>i<length hs - 1. 10 \<le> length (parseReviewsFromHTML (hs ! i))"
    proof (intro allI impI)
      fix i assume "i < length hs - 1"
      with Cons.prems(4) have "10 \<le> length (parseReviewsFromHTML ((h # hs) ! Suc i))"
        by (metis Suc_less_eq length_Cons diff_Suc_1 less_diff_conv Suc_eq_plus1)
      then show "10 \<le> length (parseReviewsFromHTML (hs ! i))" by simp
    qed
    have p5: "length (parseReviewsFromHTML (last hs)) < 10 \<or> page + 1 + length hs = Suc maxPages"
      using Cons.prems(5) False by simp
    have p2: "page + 1 + length hs \<le> Suc maxPages"
      using Cons.prems(2) by simp
    from Cons.IH [OF False p2 p3 p4 p5, of "acc @ parseReviewsFromHTML h"]
    have ih: "pages_loop e b (page + 1) (acc @ parseReviewsFromHTML h) ?w1 =
      (((acc @ parseReviewsFromHTML h) @ concat (map parseReviewsFromHTML hs),
        if length (parseReviewsFromHTML (last hs)) < 10 then page + 1 + length hs - 1 else Suc maxPages),
       ?w1\<lparr>checks := checks ?w1 + length hs,
         requests := requests ?w1 @ map (\<lambda>i. page_url b (page + 1 + i)) [0..<length hs]\<rparr>)" .
    from full ih False show ?thesis
      by (simp add: pages_loop_step [OF le f refl] map_upt_shift del: upt_Suc)
  qed
qed

lemma pages_full_prefix:
  assumes nc: "cancelAt e = None"
  shows "page + length hs \<le> Suc maxPages \<Longrightarrow>
    (\<forall>i<length hs. net e (length (requests w) + i) (page_url b (page + i)) = Ok (hs ! i)) \<Longrightarrow>
    (\<forall>i<length hs. 10 \<le> length (parseReviewsFromHTML (hs ! i))) \<Longrightarrow>
    pages_loop e b page acc w =
      pages_loop e b (page + length hs) (acc @ concat (map parseReviewsFromHTML hs))
        (w\<lparr>checks := checks w + length hs,
           requests := requests w @ map (\<lambda>i. page_url b (page + i)) [0..<length hs]\<rparr>)"
proof (induction hs arbitrary: page acc w)
  case Nil
  then show ?case by simp
next
  case (Cons h hs)
  from Cons.prems(1) have le: "page \<le> maxPages" by simp
  from Cons.prems(2) have "net e (length (requests w) + 0) (page_url b (page + 0)) = Ok ((h # hs) ! 0)"
    by blast
  then have n0: "net e (length (requests w)) (page_url b page) = Ok h" by simp
  let ?w1 = "w\<lparr>checks := checks w + 1, requests := requests w @ [page_url b page]\<rparr>"
  have f: "fetchWithRetry e (page_url b page) 3 w = (Inr (Some h), ?w1)"
    using nc n0 by (rule fetchWithRetry_ok)
  from Cons.prems(3) have "10 \<le> length (parseReviewsFromHTML ((h # hs) ! 0))"
    by blast
  then have full: "10 \<le> length (parseReviewsFromHTML h)" by simp
  have p2: "\<forall>i<length hs. net e (length (requests ?w1) + i) (page_url b (page + 1 + i)) = Ok (hs ! i)"
  proof (intro allI impI)
    fix i assume "i < length hs"
    with Cons.prems(2) have "net e (length (requests w) + Suc i) (page_url b (page + Suc i)) = Ok ((h # hs) ! Suc i)"
      by (metis Suc_less_eq length_Cons)
    then show "net e (length (requests ?w1) + i) (page_url b (page + 1 + i)) = Ok (hs ! i)"
      by simp
  qed
  have p3: "\<forall>i<length hs. 10 \<le> length (parseReviewsFromHTML (hs ! i))"
  proof (intro allI impI)
    fix i assume "i < length hs"
    with Cons.prems(3) have "10 \<le> length (parseReviewsFromHTML ((h # hs) ! Suc i))"
      by (metis Suc_less_eq length_Cons)
    then show "10 \<le> length (parseReviewsFromHTML (hs ! i))" by simp
  qed
  have p1: "page + 1 + length hs \<le> Suc maxPages"
    using Cons.prems(1) by simp
  from Cons.IH [OF p1 p2 p3, of "acc @ parseReviewsFromHTML h"]
  have ih: "pages_loop e b (page + 1) (acc @ parseReviewsFromHTML h) ?w1 =
      pages_loop e b (page + 1 + length hs)
        ((acc @ parseReviewsFromHTML h) @ concat (map parseReviewsFromHTML hs))
        (?w1\<lparr>checks := checks ?w1 + length hs,
           requests := requests ?w1 @ map (\<lambda>i. page_url b (page + 1 + i)) [0..<length hs]\<rparr>)" .
  from full ih show ?case
    by (simp add: pages_loop_step [OF le f refl] map_upt_shift del: upt_Suc)
qed

lemma pages_then_failure:
  assumes nc: "cancelAt e = None"
    and le: "page + length hs \<le> maxPages"
    and nets: "\<forall>i<length hs. net e (length (requests w) + i) (page_url b (page + i)) = Ok (hs ! i)"
    and full: "\<forall>i<length hs. 10 \<le> length (parseReviewsFromHTML (hs ! i))"
    and fails: "\<forall>k<3. is_failure (net e (length (requests w) + length hs + k)
                  (page_url b (page + length hs)))"
  shows "pages_loop e b page acc w =
      ((acc @ concat (map parseReviewsFromHTML hs), page + length hs),
       w\<lparr>checks := checks w + length hs + 3,
         requests := requests w @ map (\<lambda>i. page_url b (page + i)) [0..<length hs] @
                     replicate 3 (page_url b (page + length hs))\<rparr>)"
proof -
  let ?w1 = "w\<lparr>checks := checks w + length hs,
           requests := requests w @ map (\<lambda>i. page_url b (page + i)) [0..<length hs]\<rparr>"
  from le have le': "page + length hs \<le> Suc maxPages" by simp
  have "\<forall>k<3. is_failure (net e (length (requests ?w1) + k) (page_url b (page + length hs)))"
    using fails by simp
  from fetchWithRetry_fails [OF nc this]
  have "pages_loop e b (page + length hs) (acc @ concat (map parseReviewsFromHTML hs)) ?w1 =
      ((acc @ concat (map parseReviewsFromHTML hs), page + length hs),
       ?w1\<lparr>checks := checks ?w1 + 3,
            requests := requests ?w1 @ [page_url b (page + length hs), page_url b (page + length hs),
                                        page_url b (page + length hs)]\<rparr>)"
    using le by (intro pages_loop_raise) simp_all
  then show ?thesis
    by (simp add: pages_full_prefix [OF nc le' nets full] numeral_3_eq_3)
qed

lemma fetchAllReviewsFromProfile_Inr:
  "fetchAllReviewsFromProfile e b w =
     (Inr (fst (fst (pages_loop e b 1 [] w))), snd (pages_loop e b 1 [] w))"
  by (simp add: fetchAllReviewsFromProfile_def split: prod.splits)

subsection \<open>fetchReviewerReviews and fetchAllReviewerData\<close>

lemma fetchReviewerReviews_first_form:
  "fetchReviewerReviews e sid w =
     fetchAllReviewsFromProfile e (STEAM_COMMUNITY_URL @ ''/profiles/'' @ sid @ ''/recommended/'') w"
  by (simp add: fetchReviewerReviews_def fetchAllReviewsFromProfile_Inr)

lemma collect_loop_counts:
  "errorCount (fst (collect_loop e rs st w)) = errorCount st \<and>
   processed (fst (collect_loop e rs st w)) + successCount st + privateProfileCount st =
     processed st + successCount (fst (collect_loop e rs st w)) +
     privateProfileCount (fst (collect_loop e rs st w)) \<and>
   length (reviewerData (fst (collect_loop e rs st w))) + successCount st =
     length (reviewerData st) + successCount (fst (collect_loop e rs st w)) \<and>
   ([] \<in> set (map reviews (reviewerData (fst (collect_loop e rs st w)))) \<longrightarrow>
      [] \<in> set (map reviews (reviewerData st)))"
proof (induction rs arbitrary: st w)
  case Nil
  show ?case by simp
next
  case (Cons r rs)
  obtain c w1 where sc: "shouldCancel e w = (c, w1)" by (cases "shouldCancel e w")
  show ?case
  proof (cases c)
    case True
    with sc show ?thesis by simp
  next
    case False
    obtain revs w2 where fr: "fetchReviewerReviews e (steamId r) w1 = (Inr revs, w2)"
      by (simp add: fetchReviewerReviews_first_form fetchAllReviewsFromProfile_Inr)
    show ?thesis
    proof (cases "revs = []")
      case True
      with sc False fr
        Cons.IH [of "st\<lparr>processed := processed st + 1,
                       privateProfileCount := privateProfileCount st + 1\<rparr>" w2]
      show ?thesis by (simp add: Let_def)
    next
      case nonempty: False
      with sc False fr
        Cons.IH [of "st\<lparr>processed := processed st + 1,
                       reviewerData := reviewerData st @ [\<lparr>steamId = steamId r, reviews = revs\<rparr>],
                       successCount := successCount st + 1\<rparr>" w2]
      show ?thesis by (simp add: Let_def)
    qed
  qed
qed



subsection \<open>fetchGameReviewers\<close>

lemma push_reviewers_eq:
  "push_reviewers batch rs =
     ((if list_ex (\<lambda>review. author review = None) batch
       then Some (Error ''Cannot read properties of undefined'') else None),
      rs @ List.map_filter
             (\<lambda>review. map_option (\<lambda>a. reviewer_of a (voted_up review)) (author review))
             (takeWhile (\<lambda>review. author review \<noteq> None) batch))"
  by (induction batch arbitrary: rs) (auto simp: List.map_filter_simps)

lemma push_reviewers_data:
  "api_reviews data = Some batch \<Longrightarrow>
   push_reviewers batch rs =
     ((if lacks_author data then Some (Error ''Cannot read properties of undefined'') else None),
      rs @ identities data)"
  by (simp add: push_reviewers_eq lacks_author_def identities_def batch_of_def)


lemma discover_loop_not_entered:
  "\<not> tf < m \<Longrightarrow> discover_loop e t m rs cur tf rc w = ((rs, rc), w)"
  by (simp add: discover_loop.simps)

lemma discover_loop_cancelled:
  "tf < m \<Longrightarrow> shouldCancel e w = (True, w1) \<Longrightarrow>
   discover_loop e t m rs cur tf rc w = ((rs, rc), w1)"
  by (simp add: discover_loop.simps [of e t m rs cur tf rc w])

lemma discover_loop_raise:
  "tf < m \<Longrightarrow> shouldCancel e w = (False, w1) \<Longrightarrow>
   fetchWithRetry e (feed_url t cur) 3 w1 = (Inl err, w2) \<Longrightarrow>
   discover_loop e t m rs cur tf rc w = ((rs, rc + 1), w2)"
  by (simp add: discover_loop.simps [of e t m rs cur tf rc w])

lemma discover_loop_unparsed:
  "tf < m \<Longrightarrow> shouldCancel e w = (False, w1) \<Longrightarrow>
   fetchWithRetry e (feed_url t cur) 3 w1 = (Inr (Some body), w2) \<Longrightarrow>
   JSON_parse e body = None \<Longrightarrow>
   discover_loop e t m rs cur tf rc w = ((rs, rc + 1), w2)"
  by (simp add: discover_loop.simps [of e t m rs cur tf rc w])

lemma discover_loop_received:
  assumes "tf < m" and "shouldCancel e w = (False, w1)"
    and "fetchWithRetry e (feed_url t cur) 3 w1 = (Inr (Some body), w2)"
    and "JSON_parse e body = Some data"
  shows "discover_loop e t m rs cur tf rc w =
     (if \<not> success data \<or> batch_of data = [] then ((rs, rc + 1), w2)
      else if lacks_author data \<or> stops_after m tf data
      then ((rs @ identities data, rc + 1), w2)
      else discover_loop e t m (rs @ identities data) (next_cursor e data)
             (tf + length (batch_of data)) (rc + 1) w2)"
proof (cases "api_reviews data")
  case None
  with assms show ?thesis
    by (simp add: discover_loop.simps [of e t m rs cur tf rc w] batch_of_def)
next
  case (Some batch)
  then have b: "batch_of data = batch" by (simp add: batch_of_def)
  show ?thesis
    using assms Some
    by (simp add: discover_loop.simps [of e t m rs cur tf rc w] push_reviewers_data [OF Some]
          b stops_after_def next_cursor_def)
qed

lemma discover_loop_count_mono:
  "rc \<le> snd (fst (discover_loop e t m rs cur tf rc w))"
proof (induction e t m rs cur tf rc w rule: discover_loop.induct)
  case (1 e target maxProfiles reviewers cur totalFetched requestCount w)
  show ?case
  proof (cases "totalFetched < maxProfiles")
    case False
    then show ?thesis by (simp add: discover_loop_not_entered)
  next
    case True
    obtain c w1 where sc: "shouldCancel e w = (c, w1)" by (cases "shouldCancel e w")
    show ?thesis
    proof (cases c)
      case True
      with \<open>totalFetched < maxProfiles\<close> sc show ?thesis by (simp add: discover_loop_cancelled)
    next
      case False
      with sc have sc': "shouldCancel e w = (False, w1)" by simp
      obtain r w2 where f: "fetchWithRetry e (feed_url target cur) 3 w1 = (r, w2)"
        by (cases "fetchWithRetry e (feed_url target cur) 3 w1")
      show ?thesis
      proof (cases "\<exists>body data. r = Inr (Some body) \<and> JSON_parse e body = Some data")
        case no: False
        with True sc' f show ?thesis
          by (auto simp: discover_loop.simps [of e target maxProfiles reviewers cur totalFetched requestCount w]
                split: sum.splits option.splits)
      next
        case yes: True
        then obtain body data where r: "r = Inr (Some body)" and j: "JSON_parse e body = Some data"
          by blast
        note rec = discover_loop_received [OF True sc' f [unfolded r] j]
        show ?thesis
        proof (cases "\<not> success data \<or> batch_of data = [] \<or> lacks_author data \<or>
                      stops_after maxProfiles totalFetched data")
          case True
          then show ?thesis by (auto simp: rec)
        next
          case go: False
          then obtain batch where b: "api_reviews data = Some batch"
            by (cases "api_reviews data") (auto simp: batch_of_def)
          then have bo: "batch_of data = batch" by (simp add: batch_of_def)
          from go bo have conds: "success data" "length batch \<noteq> 0"
            "\<not> (cursor data = None \<or> cursor data = Some [] \<or> length batch < 100 \<or>
                maxProfiles \<le> totalFetched + length batch)"
            by (auto simp: stops_after_def)
          from go b have pr: "push_reviewers batch reviewers = (None, reviewers @ identities data)"
            by (simp add: push_reviewers_data)
          have "requestCount + 1 \<le> snd (fst (discover_loop e target maxProfiles
                   (reviewers @ identities data)
                   (encodeURIComponent e (case cursor data of Some c \<Rightarrow> c | None \<Rightarrow> []))
                   (totalFetched + length batch) (requestCount + 1) w2))"
            using "1.IH" [OF True sc' [symmetric] _ f [symmetric] r _ _ b _ pr [symmetric]] j conds
            by simp
          with go bo show ?thesis by (simp add: rec next_cursor_def)
        qed
      qed
    qed
  qed
qed

lemma discover_loop_count_entered:
  assumes "tf < m" and "shouldCancel e w = (False, w1)"
  shows "rc + 1 \<le> snd (fst (discover_loop e t m rs cur tf rc w))"
proof -
  obtain r w2 where f: "fetchWithRetry e (feed_url t cur) 3 w1 = (r, w2)"
    by (cases "fetchWithRetry e (feed_url t cur) 3 w1")
  show ?thesis
  proof (cases "\<exists>body data. r = Inr (Some body) \<and> JSON_parse e body = Some data")
    case False
    with assms f show ?thesis
      by (auto simp: discover_loop.simps [of e t m rs cur tf rc w] split: sum.splits option.splits)
  next
    case True
    then obtain body data where r: "r = Inr (Some body)" and j: "JSON_parse e body = Some data"
      by blast
    note rec = discover_loop_received [OF assms f [unfolded r] j]
    have "rc + 1 \<le> snd (fst (discover_loop e t m (rs @ identities data) (next_cursor e data)
             (tf + length (batch_of data)) (rc + 1) w2))"
      by (rule discover_loop_count_mono)
    then show ?thesis by (simp add: rec)
  qed
qed

lemma shouldCancel_flag:
  "shouldCancel e w = (flag_set e (checks w), w\<lparr>checks := checks w + 1\<rparr>)"
  by (simp add: shouldCancel_def flag_set_def)

lemma discover_stops_iff:
  assumes "tf < m" and "\<not> flag_set e (checks w)"
  shows "(snd (fst (discover_loop e t m rs cur tf rc w)) = rc + 1) =
         (ends_discovery e m tf (fetched e (feed_url t cur) (w\<lparr>checks := checks w + 1\<rparr>)) \<or>
          flag_set e (checks (snd (fetchWithRetry e (feed_url t cur) 3
                                     (w\<lparr>checks := checks w + 1\<rparr>)))))"
proof -
  let ?w1 = "w\<lparr>checks := checks w + 1\<rparr>"
  from assms(2) have sc: "shouldCancel e w = (False, ?w1)"
    by (simp add: shouldCancel_flag)
  obtain r w2 where f: "fetchWithRetry e (feed_url t cur) 3 ?w1 = (r, w2)"
    by (cases "fetchWithRetry e (feed_url t cur) 3 ?w1")
  with fetchWithRetry_fetched [of e "feed_url t cur" ?w1]
  have r: "r = (case fetched e (feed_url t cur) ?w1 of
        Body body \<Rightarrow> Inr (Some body)
      | TransportError \<Rightarrow> Inl (error_of (net e (length (requests ?w1) + 2) (feed_url t cur)))
      | CancelRequested \<Rightarrow> Inl (Error ''Cancelled''))"
    by simp
  show ?thesis
  proof (cases "fetched e (feed_url t cur) ?w1")
    case TransportError
    with r f show ?thesis
      by (simp add: discover_loop_raise [OF assms(1) sc] ends_discovery_def)
  next
    case CancelRequested
    with r f show ?thesis
      by (simp add: discover_loop_raise [OF assms(1) sc] ends_discovery_def)
  next
    case (Body body)
    with r f have f': "fetchWithRetry e (feed_url t cur) 3 ?w1 = (Inr (Some body), w2)"
      by simp
    show ?thesis
    proof (cases "JSON_parse e body")
      case None
      with Body show ?thesis
        by (simp add: discover_loop_unparsed [OF assms(1) sc f'] ends_discovery_def)
    next
      case (Some data)
      note rec = discover_loop_received [OF assms(1) sc f' Some]
      show ?thesis
      proof (cases "stops_after m tf data \<or> lacks_author data")
        case True
        with Body Some show ?thesis
          by (auto simp: rec ends_discovery_def stops_after_def)
      next
        case False
        then have lt: "tf + length (batch_of data) < m"
          by (auto simp: stops_after_def)
        let ?next = "discover_loop e t m (rs @ identities data) (next_cursor e data)
             (tf + length (batch_of data)) (rc + 1) w2"
        from False have eq: "discover_loop e t m rs cur tf rc w = ?next"
          by (auto simp: rec stops_after_def)
        show ?thesis
        proof (cases "flag_set e (checks w2)")
          case True
          then have "shouldCancel e w2 = (True, w2\<lparr>checks := checks w2 + 1\<rparr>)"
            by (simp add: shouldCancel_flag)
          from discover_loop_cancelled [OF lt this] True f show ?thesis
            by (simp add: eq)
        next
          case no: False
          then have "shouldCancel e w2 = (False, w2\<lparr>checks := checks w2 + 1\<rparr>)"
            by (simp add: shouldCancel_flag)
          from discover_loop_count_entered [OF lt this]
          have "rc + 1 + 1 \<le> snd (fst ?next)" .
          with no False Body Some f show ?thesis
            by (simp add: eq ends_discovery_def)
        qed
      qed
    qed
  qed
qed

lemma fetchGameReviewers_at_most: "length (fst (fetchGameReviewers e t m w)) \<le> m"
  by (simp add: fetchGameReviewers_def split: prod.splits)

lemma cursors_append:
  "cursors e cur (ds @ [d]) = cursors e cur ds @ [cursor_after e cur ds]"
  by (induction ds arbitrary: cur) (simp_all add: cursor_after_def)

lemma length_cursors: "length (cursors e cur ds) = length ds"
  by (induction ds arbitrary: cur) simp_all

lemma discover_step_full:
  assumes nc: "cancelAt e = None" and "tf + length (batch_of d) < m" and "full_batch d"
    and "net e (length (requests w)) (feed_url t cur) = Ok body" and "JSON_parse e body = Some d"
  shows "discover_loop e t m rs cur tf rc w =
      discover_loop e t m (rs @ identities d) (next_cursor e d) (tf + length (batch_of d)) (rc + 1)
        (w\<lparr>checks := checks w + 2, requests := requests w @ [feed_url t cur]\<rparr>)"
proof -
  let ?w1 = "w\<lparr>checks := checks w + 1\<rparr>"
  have sc: "shouldCancel e w = (False, ?w1)"
    using nc by (simp add: shouldCancel_def)
  have f: "fetchWithRetry e (feed_url t cur) 3 ?w1 =
      (Inr (Some body), w\<lparr>checks := checks w + 2, requests := requests w @ [feed_url t cur]\<rparr>)"
    using fetchWithRetry_ok [of e ?w1 "feed_url t cur" body] nc assms(4) by simp
  from assms(2) have lt: "tf < m" by simp
  from assms(2,3) show ?thesis
    by (auto simp: discover_loop_received [OF lt sc f assms(5)] full_batch_def stops_after_def)
qed

lemma discover_full_prefix:
  assumes nc: "cancelAt e = None"
  shows "\<forall>d\<in>set ds. full_batch d \<Longrightarrow>
    tf + sum_list (map (\<lambda>d. length (batch_of d)) ds) < m \<Longrightarrow>
    (\<forall>i<length ds. \<exists>body. net e (length (requests w) + i) (feed_url t (cursors e cur ds ! i)) = Ok body \<and>
                          JSON_parse e body = Some (ds ! i)) \<Longrightarrow>
    discover_loop e t m rs cur tf rc w =
      discover_loop e t m (rs @ concat (map identities ds)) (cursor_after e cur ds)
        (tf + sum_list (map (\<lambda>d. length (batch_of d)) ds)) (rc + length ds)
        (w\<lparr>checks := checks w + 2 * length ds,
           requests := requests w @ map (feed_url t) (cursors e cur ds)\<rparr>)"
proof (induction ds arbitrary: rs cur tf rc w)
  case Nil
  show ?case by (simp add: cursor_after_def)
next
  case (Cons d ds)
  from Cons.prems(1) have fd: "full_batch d" and rest: "\<forall>d\<in>set ds. full_batch d" by simp_all
  from Cons.prems(2) have lt: "tf + length (batch_of d) < m"
    and lt': "tf + length (batch_of d) + sum_list (map (\<lambda>d. length (batch_of d)) ds) < m"
    by simp_all
  from Cons.prems(3) have "\<exists>body. net e (length (requests w) + 0)
        (feed_url t (cursors e cur (d # ds) ! 0)) = Ok body \<and> JSON_parse e body = Some ((d # ds) ! 0)"
    by blast
  then obtain body where n0: "net e (length (requests w)) (feed_url t cur) = Ok body"
    and j0: "JSON_parse e body = Some d"
    by auto
  let ?w2 = "w\<lparr>checks := checks w + 2, requests := requests w @ [feed_url t cur]\<rparr>"
  have p3: "\<forall>i<length ds. \<exists>body. net e (length (requests ?w2) + i)
        (feed_url t (cursors e (next_cursor e d) ds ! i)) = Ok body \<and> JSON_parse e body = Some (ds ! i)"
  proof (intro allI impI)
    fix i assume "i < length ds"
    then have "Suc i < length (d # ds)" by simp
    with Cons.prems(3) have "\<exists>body. net e (length (requests w) + Suc i)
        (feed_url t (cursors e cur (d # ds) ! Suc i)) = Ok body \<and>
        JSON_parse e body = Some ((d # ds) ! Suc i)"
      by blast
    then show "\<exists>body. net e (length (requests ?w2) + i)
        (feed_url t (cursors e (next_cursor e d) ds ! i)) = Ok body \<and> JSON_parse e body = Some (ds ! i)"
      by simp
  qed
  note ih = Cons.IH [OF rest lt' p3, of "rs @ identities d" "rc + 1"]
  show ?case
    unfolding discover_step_full [OF nc lt fd n0 j0] ih
    by (simp add: cursor_after_def add.assoc)
qed

lemma discover_then_failure:
  assumes nc: "cancelAt e = None"
    and full: "\<forall>d\<in>set ds. full_batch d"
    and lt: "tf + sum_list (map (\<lambda>d. length (batch_of d)) ds) < m"
    and served: "\<forall>i<length ds. \<exists>body.
        net e (length (requests w) + i) (feed_url t (cursors e cur ds ! i)) = Ok body \<and>
        JSON_parse e body = Some (ds ! i)"
    and fails: "\<forall>k<3. is_failure (net e (length (requests w) + length ds + k)
                  (feed_url t (cursor_after e cur ds)))"
  shows "discover_loop e t m rs cur tf rc w =
      ((rs @ concat (map identities ds), rc + length ds + 1),
       w\<lparr>checks := checks w + 2 * length ds + 4,
         requests := requests w @ map (feed_url t) (cursors e cur ds) @
                     replicate 3 (feed_url t (cursor_after e cur ds))\<rparr>)"
proof -
  let ?w0 = "w\<lparr>checks := checks w + 2 * length ds,
           requests := requests w @ map (feed_url t) (cursors e cur ds)\<rparr>"
  let ?w1 = "?w0\<lparr>checks := checks ?w0 + 1\<rparr>"
  let ?u = "feed_url t (cursor_after e cur ds)"
  have sc: "shouldCancel e ?w0 = (False, ?w1)"
    using nc by (simp add: shouldCancel_def)
  have "\<forall>k<3. is_failure (net e (length (requests ?w1) + k) ?u)"
    using fails by (simp add: length_cursors)
  from fetchWithRetry_fails [OF nc this]
  have "discover_loop e t m (rs @ concat (map identities ds)) (cursor_after e cur ds)
        (tf + sum_list (map (\<lambda>d. length (batch_of d)) ds)) (rc + length ds) ?w0 =
      ((rs @ concat (map identities ds), rc + length ds + 1),
       ?w1\<lparr>checks := checks ?w1 + 3, requests := requests ?w1 @ [?u, ?u, ?u]\<rparr>)"
    by (intro discover_loop_raise [OF lt sc])
  then show ?thesis
    by (simp add: discover_full_prefix [OF nc full lt served] numeral_3_eq_3)
qed

lemma discover_then_last:
  assumes nc: "cancelAt e = None"
    and full: "\<forall>d\<in>set ds. full_batch d"
    and lt: "tf + sum_list (map (\<lambda>d. length (batch_of d)) ds) < m"
    and served: "\<forall>i<length ds. \<exists>body.
        net e (length (requests w) + i) (feed_url t (cursors e cur ds ! i)) = Ok body \<and>
        JSON_parse e body = Some (ds ! i)"
    and arrives: "net e (length (requests w) + length ds) (feed_url t (cursor_after e cur ds)) = Ok body"
      "JSON_parse e body = Some d"
    and last: "success d" "batch_of d \<noteq> []"
      "lacks_author d \<or> stops_after m (tf + sum_list (map (\<lambda>d. length (batch_of d)) ds)) d"
  shows "discover_loop e t m rs cur tf rc w =
      ((rs @ concat (map identities (ds @ [d])), rc + length ds + 1),
       w\<lparr>checks := checks w + 2 * length ds + 2,
         requests := requests w @ map (feed_url t) (cursors e cur (ds @ [d]))\<rparr>)"
proof -
  let ?w0 = "w\<lparr>checks := checks w + 2 * length ds,
           requests := requests w @ map (feed_url t) (cursors e cur ds)\<rparr>"
  let ?w1 = "?w0\<lparr>checks := checks ?w0 + 1\<rparr>"
  let ?u = "feed_url t (cursor_after e cur ds)"
  have sc: "shouldCancel e ?w0 = (False, ?w1)"
    using nc by (simp add: shouldCancel_def)
  have f: "fetchWithRetry e ?u 3 ?w1 =
      (Inr (Some body), ?w1\<lparr>checks := checks ?w1 + 1, requests := requests ?w1 @ [?u]\<rparr>)"
    using fetchWithRetry_ok [of e ?w1 ?u body] nc arrives(1) by (simp add: length_cursors)
  show ?thesis
    using last
    by (simp add: discover_full_prefix [OF nc full lt served]
          discover_loop_received [OF lt sc f arrives(2)] cursors_append)
qed

lemma fetchGameReviewers_short_batch:
  assumes nc: "cancelAt e = None" and "0 < m"
    and "net e (length (requests w)) (feed_url t ''*'') = Ok body"
    and "JSON_parse e body = Some data" and "success data"
    and "batch_of data \<noteq> []" and "length (batch_of data) < 100"
  shows "fetchGameReviewers e t m w =
           (take m (identities data),
            w\<lparr>checks := checks w + 2, requests := requests w @ [feed_url t ''*'']\<rparr>)"
proof -
  have "stops_after m (0 + sum_list (map (\<lambda>d. length (batch_of d)) [])) data"
    using assms(7) by (simp add: stops_after_def)
  then have last: "lacks_author data \<or>
      stops_after m (0 + sum_list (map (\<lambda>d. length (batch_of d)) [])) data"
    by simp
  have "discover_loop e t m [] ''*'' 0 0 w =
      (([] @ concat (map identities ([] @ [data])), 0 + length ([]::api_data list) + 1),
       w\<lparr>checks := checks w + 2 * length ([]::api_data list) + 2,
         requests := requests w @ map (feed_url t) (cursors e ''*'' ([] @ [data]))\<rparr>)"
    using assms(2,3) by (intro discover_then_last [OF nc _ _ _ _ assms(4,5,6) last])
      (simp_all add: cursor_after_def)
  then show ?thesis
    by (simp add: fetchGameReviewers_def)
qed

subsection \<open>analyzeGame and startBackgroundAnalysis\<close>


lemma fetchUserReviews_eq:
  "fetchUserReviews e sid w =
     (case parseSteamId sid of
        None \<Rightarrow> (Inl (Error msg_invalid_id), w)
      | Some c \<Rightarrow>
          if c = [] then (Inl (Error msg_invalid_id), w)
          else if fst (fst (pages_loop e (profile_base c) 1 [] w)) = []
          then (Inl (Error msg_could_not_fetch), snd (pages_loop e (profile_base c) 1 [] w))
          else (Inr (fst (fst (pages_loop e (profile_base c) 1 [] w))),
                snd (pages_loop e (profile_base c) 1 [] w)))"
  by (simp add: fetchUserReviews_def fetchAllReviewsFromProfile_Inr profile_base_def Let_def
           split: option.splits)

lemma msgs_not_cancelled:
  "msg_invalid_id \<noteq> ''Cancelled''" "msg_could_not_fetch \<noteq> ''Cancelled''"
  "msg_no_reviews \<noteq> ''Cancelled''" "msg_no_reviewers \<noteq> ''Cancelled''"
  by (simp_all add: msg_invalid_id_def msg_could_not_fetch_def msg_no_reviews_def
        msg_no_reviewers_def)




subsection \<open>Concrete pages and feed responses\<close>

lemma parse_page10:
  "parseReviewsFromHTML page10 =
     map (\<lambda>n. \<lparr>appId = n, isPositive = True\<rparr>)
       [''11'', ''12'', ''13'', ''14'', ''15'', ''16'', ''17'', ''18'', ''19'', ''20'']"
  by code_simp

lemma parse_page7:
  "parseReviewsFromHTML page7 =
     map (\<lambda>n. \<lparr>appId = n, isPositive = False\<rparr>)
       [''31'', ''32'', ''33'', ''34'', ''35'', ''36'', ''37'']"
  by code_simp

lemma parse_page_reviewer:
  "parseReviewsFromHTML page_reviewer =
     [\<lparr>appId = ''11'', isPositive = True\<rparr>, \<lparr>appId = ''99'', isPositive = True\<rparr>]"
  by code_simp

lemma parseSteamId_1: "parseSteamId ''1'' = Some ''1''"
  by code_simp


lemma show_nat_234: "show_nat 2 = ''2''" "show_nat 3 = ''3''" "show_nat 4 = ''4''"
  by code_simp+

lemma show_nat_404: "show_nat 404 = ''404''"
  by code_simp

lemma len10: "length (parseReviewsFromHTML page10) = 10"
  by (simp add: parse_page10)

lemma len7: "length (parseReviewsFromHTML page7) = 7"
  by (simp add: parse_page7)

lemma identities_replicate:
  assumes "api_reviews data = Some (replicate n \<lparr>author = Some a, voted_up = v\<rparr>)"
  shows "identities data = replicate n (reviewer_of a v)"
    and "\<not> lacks_author data" and "length (batch_of data) = n"
  using assms
  by (simp_all add: identities_def lacks_author_def batch_of_def List.map_filter_def
        takeWhile_replicate list_ex_iff)

lemma batchA_facts:
  "identities batchA =
     replicate 100 \<lparr>steamId = ''5'', profileUrl = STEAM_COMMUNITY_URL @ ''/profiles/5'',
                     votedUp = True\<rparr>"
  "full_batch batchA" "length (batch_of batchA) = 100" "success batchA"
  "\<not> stops_after 250 0 batchA" "\<not> stops_after 150 0 batchA" "\<not> lacks_author batchA"
  "batch_of batchA \<noteq> []"
  using identities_replicate [of batchA 100 "\<lparr>steamid = ''5''\<rparr>" True]
  by (simp_all add: batchA_def full_batch_def stops_after_def reviewer_of_def batch_of_def)

lemma batchB_facts:
  "identities batchB =
     replicate 100 \<lparr>steamId = ''6'', profileUrl = STEAM_COMMUNITY_URL @ ''/profiles/6'',
                     votedUp = False\<rparr>"
  "length (batch_of batchB) = 100" "success batchB" "stops_after 150 100 batchB"
  "batch_of batchB \<noteq> []"
  using identities_replicate [of batchB 100 "\<lparr>steamid = ''6''\<rparr>" False]
  by (simp_all add: batchB_def stops_after_def reviewer_of_def batch_of_def)

lemma batch_gap_facts:
  "identities batch_gap =
     [\<lparr>steamId = ''1'', profileUrl = STEAM_COMMUNITY_URL @ ''/profiles/1'', votedUp = True\<rparr>]"
  "lacks_author batch_gap" "success batch_gap" "batch_of batch_gap \<noteq> []"
  by (simp_all add: batch_gap_def identities_def lacks_author_def batch_of_def reviewer_of_def
        List.map_filter_simps)

lemma feed1_facts:
  "identities feed1 =
     [\<lparr>steamId = ''2'', profileUrl = STEAM_COMMUNITY_URL @ ''/profiles/2'', votedUp = True\<rparr>]"
  "success feed1" "batch_of feed1 \<noteq> []" "length (batch_of feed1) < 100"
  "stops_after 100 0 feed1"
  by (simp_all add: feed1_def identities_def batch_of_def reviewer_of_def stops_after_def
        List.map_filter_simps)

subsection \<open>A run with a transport error on the subject's second page\<close>







subsection \<open>Cancellation\<close>

text \<open>
  C3 fails on the code. When cancellation is requested before the first page of the
  subject's history is fetched, \<open>fetchWithRetry\<close> throws \<open>Cancelled\<close>, the page loop
  catches it and returns no review, and \<open>fetchUserReviews\<close> throws its own error for an
  empty history: the run ends on the error path with \<open>analysisError\<close> set, although the
  stages after it test the flag before they report an empty result.
\<close>

theorem cancel_before_first_fetch:
  assumes "cancelAt e = Some 0" and "parseSteamId sid = Some c" and "c \<noteq> []"
  shows "startBackgroundAnalysis e t sid mo ms mp = run_failed msg_could_not_fetch"
proof -
  have "fetchWithRetry e (page_url (profile_base c) 1) 3 world0 =
      (Inl (Error ''Cancelled''), world0\<lparr>checks := checks world0 + 1\<rparr>)"
    using fetchWithRetry_cancelled [OF assms(1), of world0 "page_url (profile_base c) 1" 2]
    by (simp add: numeral_3_eq_3)
  then have "pages_loop e (profile_base c) 1 [] world0 =
      (([], 1), world0\<lparr>checks := checks world0 + 1\<rparr>)"
    by (intro pages_loop_raise) (simp_all add: maxPages_def)
  then have "fst (fetchUserReviews e sid world0) = Inl (Error msg_could_not_fetch)"
    using assms(2,3) by (simp add: fetchUserReviews_eq)
  then obtain w1 where fu: "fetchUserReviews e sid world0 = (Inl (Error msg_could_not_fetch), w1)"
    by (cases "fetchUserReviews e sid world0") simp
  show ?thesis
    by (simp add: startBackgroundAnalysis_def analyzeGame_def fu run_failed_def
          msgs_not_cancelled)
qed

theorem cancel_before_first_fetch_witness:
  "cancelAt env_cancelled = Some 0 \<and> parseSteamId ''1'' = Some ''1'' \<and>
   net env_cancelled 0 (profile_base ''1'') = Ok page10 \<and>
   startBackgroundAnalysis env_cancelled ''99'' ''1'' 1 50 100 =
     \<lparr>analysisResult = None, analysisError = Some msg_could_not_fetch,
      terminalProgress = Some ''Error'', notified = Some (AnalysisFailed msg_could_not_fetch)\<rparr>"
proof -
  have c: "cancelAt env_cancelled = Some 0" by (simp add: env_cancelled_def)
  have n: "net env_cancelled 0 (profile_base ''1'') = Ok page10" by (simp add: env_cancelled_def)
  have ne: "''1'' \<noteq> []" by simp
  from cancel_before_first_fetch [OF c parseSteamId_1 ne, of "''99''" 1 50 100]
  show ?thesis using c n parseSteamId_1 by (simp add: run_failed_def)
qed

subsection \<open>Transport errors\<close>













text \<open>
  C5 fails on the code. \<open>fetchAllReviewsFromProfile\<close> never throws, so the \<open>catch\<close> of
  \<open>fetchReviewerReviews\<close> that holds the vanity form is never entered: when every attempt
  at the numeric form fails with status 404 the reviewer gets the empty list after
  three requests of the numeric form, although the vanity form would deliver two
  reviews.
\<close>

theorem vanity_form_never_requested:
  "fetchReviewerReviews env_vanity ''gabe'' world0 =
     (Inr [],
      \<lparr>requests = [STEAM_COMMUNITY_URL @ ''/profiles/gabe/recommended/'',
                   STEAM_COMMUNITY_URL @ ''/profiles/gabe/recommended/'',
                   STEAM_COMMUNITY_URL @ ''/profiles/gabe/recommended/''],
       checks = 3\<rparr>) \<and>
   fst (fetchAllReviewsFromProfile env_vanity (STEAM_COMMUNITY_URL @ ''/id/gabe/recommended/'')
          world0) =
     Inr [\<lparr>appId = ''11'', isPositive = True\<rparr>, \<lparr>appId = ''99'', isPositive = True\<rparr>]"
proof -
  let ?p = "STEAM_COMMUNITY_URL @ ''/profiles/gabe/recommended/''"
  let ?v = "STEAM_COMMUNITY_URL @ ''/id/gabe/recommended/''"
  have nc: "cancelAt env_vanity = None" by (simp add: env_vanity_def)
  have hyp: "\<forall>k<3. is_failure (net env_vanity (length (requests world0) + k) (page_url ?p 1))"
    by (simp add: env_vanity_def is_failure_def page_url_def STEAM_COMMUNITY_URL_def)
  have err: "error_of (net env_vanity (length (requests world0) + 2) (page_url ?p 1)) =
      Error ''HTTP error! status: 404''"
    by (simp add: env_vanity_def error_of_def page_url_def STEAM_COMMUNITY_URL_def show_nat_404)
  have "pages_loop env_vanity ?p 1 [] world0 =
      (([], 1), world0\<lparr>checks := checks world0 + 3,
                      requests := requests world0 @ [page_url ?p 1, page_url ?p 1, page_url ?p 1]\<rparr>)"
    by (rule pages_loop_raise [OF _ fetchWithRetry_fails [OF nc hyp]]) (simp add: maxPages_def)
  then have first: "fetchReviewerReviews env_vanity ''gabe'' world0 =
     (Inr [], \<lparr>requests = [?p, ?p, ?p], checks = 3\<rparr>)"
    by (simp add: fetchReviewerReviews_first_form fetchAllReviewsFromProfile_Inr world0_def
          page_url_def)
  have "net env_vanity (length (requests world0)) (page_url ?v 1) = Ok page_reviewer"
    by (simp add: env_vanity_def page_url_def)
  with pages_run [OF nc, of "[page_reviewer]" 1 world0 ?v "[]"]
  have "fst (fst (pages_loop env_vanity ?v 1 [] world0)) = parseReviewsFromHTML page_reviewer"
    by (simp add: maxPages_def parse_page_reviewer)
  then have second: "fst (fetchAllReviewsFromProfile env_vanity ?v world0) =
      Inr [\<lparr>appId = ''11'', isPositive = True\<rparr>, \<lparr>appId = ''99'', isPositive = True\<rparr>]"
    by (simp add: fetchAllReviewsFromProfile_Inr parse_page_reviewer)
  from first second show ?thesis by blast
qed

subsection \<open>The ends of the loops\<close>

lemma flaky_run:
  "pages_loop env_flaky ''u'' 1 [] world0 =
     ((parseReviewsFromHTML page10 @ parseReviewsFromHTML page10, 3),
      \<lparr>requests = [''u'', ''u?p=2'', ''u?p=3'', ''u?p=3'', ''u?p=3''], checks = 5\<rparr>)"
proof -
  have nc: "cancelAt env_flaky = None" by (simp add: env_flaky_def)
  have e1: "map (\<lambda>i. page_url ''u'' (1 + i)) [0..<2] = [''u'', ''u?p=2'']"
    by code_simp
  have e2: "page_url ''u'' (1 + 2) = ''u?p=3''"
    by code_simp
  have l2: "length [page10, page10] = 2" by simp
  have raw: "pages_loop env_flaky ''u'' 1 [] world0 =
      (([] @ concat (map parseReviewsFromHTML [page10, page10]), 1 + length [page10, page10]),
       world0\<lparr>checks := checks world0 + length [page10, page10] + 3,
         requests := requests world0 @
           map (\<lambda>i. page_url ''u'' (1 + i)) [0..<length [page10, page10]] @
           replicate 3 (page_url ''u'' (1 + length [page10, page10]))\<rparr>)"
    by (rule pages_then_failure [OF nc])
       (simp_all add: env_flaky_def maxPages_def world0_def All_less_Suc len10 is_failure_def
          numeral_3_eq_3)
  show ?thesis
    unfolding raw l2 e1 e2 by (simp add: world0_def numeral_3_eq_3)
qed

text \<open>
  C6, as the code has it. The page loop stops at a page of at most \<open>maxPages = 50\<close>
  exactly when the page yields fewer than 10 reviews (none included), the page cannot
  be fetched after its three attempts, or cancellation is requested; beyond page 50 it
  fetches nothing. A fetch made once cancellation is requested ends at once, and three
  failed attempts are a transport error. So on pages that arrive, all but the last
  with at least 10 reviews and the last with fewer than 10 or the 50th, exactly these
  pages are requested, in order: four pages for the sizes 10, 10, 10, 7 and fifty for
  fifty full pages. When full pages are followed by a page whose three attempts fail,
  the loop stops there and returns the reviews of the full pages.
\<close>

theorem pagination_stops:
  "(page \<le> maxPages \<longrightarrow>
      (snd (fst (pages_loop e b page acc w)) = page) =
      ends_pagination (fetched e (page_url b page) w)) \<and>
   (maxPages < page \<longrightarrow> pages_loop e b page acc w = ((acc, page), w)) \<and>
   (flag_set e (checks w) \<longrightarrow> fetched e (page_url b page) w = CancelRequested) \<and>
   (cancelAt e = None \<and>
    (\<forall>k<3. is_failure (net e (length (requests w) + k) (page_url b page))) \<longrightarrow>
      fetched e (page_url b page) w = TransportError) \<and>
   (cancelAt e = None \<and> hs \<noteq> [] \<and> length hs \<le> maxPages \<and>
    (\<forall>i<length hs. net e (length (requests w) + i) (page_url b (1 + i)) = Ok (hs ! i)) \<and>
    (\<forall>i<length hs - 1. 10 \<le> length (parseReviewsFromHTML (hs ! i))) \<and>
    (length (parseReviewsFromHTML (last hs)) < 10 \<or> length hs = maxPages) \<longrightarrow>
      pages_loop e b 1 [] w =
        ((concat (map parseReviewsFromHTML hs),
          if length (parseReviewsFromHTML (last hs)) < 10 then length hs else Suc maxPages),
         w\<lparr>checks := checks w + length hs,
           requests := requests w @ map (\<lambda>i. page_url b (1 + i)) [0..<length hs]\<rparr>)) \<and>
   (cancelAt e = None \<and> length hs < maxPages \<and>
    (\<forall>i<length hs. net e (length (requests w) + i) (page_url b (1 + i)) = Ok (hs ! i)) \<and>
    (\<forall>i<length hs. 10 \<le> length (parseReviewsFromHTML (hs ! i))) \<and>
    (\<forall>k<3. is_failure (net e (length (requests w) + length hs + k)
               (page_url b (1 + length hs)))) \<longrightarrow>
      pages_loop e b 1 [] w =
        ((concat (map parseReviewsFromHTML hs), 1 + length hs),
         w\<lparr>checks := checks w + length hs + 3,
           requests := requests w @ map (\<lambda>i. page_url b (1 + i)) [0..<length hs] @
                       replicate 3 (page_url b (1 + length hs))\<rparr>))"
proof (intro conjI impI)
  assume "page \<le> maxPages"
  then show "(snd (fst (pages_loop e b page acc w)) = page) =
      ends_pagination (fetched e (page_url b page) w)"
    by (rule pages_loop_stops_iff)
next
  assume "maxPages < page"
  then show "pages_loop e b page acc w = ((acc, page), w)"
    by (rule pages_loop_beyond)
next
  assume "flag_set e (checks w)"
  then show "fetched e (page_url b page) w = CancelRequested"
    by (rule fetched_cancelled)
next
  assume "cancelAt e = None \<and>
    (\<forall>k<3. is_failure (net e (length (requests w) + k) (page_url b page)))"
  then show "fetched e (page_url b page) w = TransportError"
    by (simp add: fetched_fails)
next
  assume a: "cancelAt e = None \<and> hs \<noteq> [] \<and> length hs \<le> maxPages \<and>
    (\<forall>i<length hs. net e (length (requests w) + i) (page_url b (1 + i)) = Ok (hs ! i)) \<and>
    (\<forall>i<length hs - 1. 10 \<le> length (parseReviewsFromHTML (hs ! i))) \<and>
    (length (parseReviewsFromHTML (last hs)) < 10 \<or> length hs = maxPages)"
  then have nc: "cancelAt e = None" and ne: "hs \<noteq> []" and le: "1 + length hs \<le> Suc maxPages"
    and nets: "\<forall>i<length hs. net e (length (requests w) + i) (page_url b (1 + i)) = Ok (hs ! i)"
    and full: "\<forall>i<length hs - 1. 10 \<le> length (parseReviewsFromHTML (hs ! i))"
    and lst: "length (parseReviewsFromHTML (last hs)) < 10 \<or> 1 + length hs = Suc maxPages"
    by simp_all
  from pages_run [OF nc ne le nets full lst, of "[]"]
  show "pages_loop e b 1 [] w =
        ((concat (map parseReviewsFromHTML hs),
          if length (parseReviewsFromHTML (last hs)) < 10 then length hs else Suc maxPages),
         w\<lparr>checks := checks w + length hs,
           requests := requests w @ map (\<lambda>i. page_url b (1 + i)) [0..<length hs]\<rparr>)"
    by simp
next
  assume a: "cancelAt e = None \<and> length hs < maxPages \<and>
    (\<forall>i<length hs. net e (length (requests w) + i) (page_url b (1 + i)) = Ok (hs ! i)) \<and>
    (\<forall>i<length hs. 10 \<le> length (parseReviewsFromHTML (hs ! i))) \<and>
    (\<forall>k<3. is_failure (net e (length (requests w) + length hs + k)
               (page_url b (1 + length hs))))"
  then have nc: "cancelAt e = None" and le: "1 + length hs \<le> maxPages"
    and nets: "\<forall>i<length hs. net e (length (requests w) + i) (page_url b (1 + i)) = Ok (hs ! i)"
    and full: "\<forall>i<length hs. 10 \<le> length (parseReviewsFromHTML (hs ! i))"
    and fails: "\<forall>k<3. is_failure (net e (length (requests w) + length hs + k)
               (page_url b (1 + length hs)))"
    by simp_all
  from pages_then_failure [OF nc le nets full fails, of "[]"]
  show "pages_loop e b 1 [] w =
        ((concat (map parseReviewsFromHTML hs), 1 + length hs),
         w\<lparr>checks := checks w + length hs + 3,
           requests := requests w @ map (\<lambda>i. page_url b (1 + i)) [0..<length hs] @
                       replicate 3 (page_url b (1 + length hs))\<rparr>)"
    by simp
qed

theorem pagination_stops_witness:
  "snd (fst (pages_loop env_pages ''u'' 1 [] world0)) = 4 \<and>
   requests (snd (pages_loop env_pages ''u'' 1 [] world0)) = [''u'', ''u?p=2'', ''u?p=3'', ''u?p=4''] \<and>
   length (fst (fst (pages_loop env_pages ''u'' 1 [] world0))) = 37 \<and>
   snd (fst (pages_loop env_full ''u'' 1 [] world0)) = 51 \<and>
   requests (snd (pages_loop env_full ''u'' 1 [] world0)) =
     map (\<lambda>i. page_url ''u'' (1 + i)) [0..<50] \<and>
   pages_loop env_full ''u'' 51 [] world0 = (([], 51), world0) \<and>
   fetched env_cancelled (page_url ''u'' 1) world0 = CancelRequested \<and>
   fetched env_never (page_url ''u'' 1) world0 = TransportError \<and>
   \<not> ends_pagination (fetched env_pages (page_url ''u'' 1) world0) \<and>
   snd (fst (pages_loop env_pages ''u'' 1 [] world0)) \<noteq> 1 \<and>
   pages_loop env_flaky ''u'' 1 [] world0 =
     ((parseReviewsFromHTML page10 @ parseReviewsFromHTML page10, 3),
      \<lparr>requests = [''u'', ''u?p=2'', ''u?p=3'', ''u?p=3'', ''u?p=3''], checks = 5\<rparr>)"
proof -
  let ?hs = "[page10, page10, page10, page7]"
  let ?gs = "[page10, page10]"
  have h1: "cancelAt env_pages = None \<and> ?hs \<noteq> [] \<and> length ?hs \<le> maxPages \<and>
    (\<forall>i<length ?hs. net env_pages (length (requests world0) + i) (page_url ''u'' (1 + i)) = Ok (?hs ! i)) \<and>
    (\<forall>i<length ?hs - 1. 10 \<le> length (parseReviewsFromHTML (?hs ! i))) \<and>
    (length (parseReviewsFromHTML (last ?hs)) < 10 \<or> length ?hs = maxPages)"
    by (simp add: env_pages_def maxPages_def world0_def All_less_Suc len10 len7 numeral_3_eq_3)
  have h2: "cancelAt env_full = None \<and> replicate 50 page10 \<noteq> [] \<and>
    length (replicate 50 page10) \<le> maxPages \<and>
    (\<forall>i<length (replicate 50 page10).
        net env_full (length (requests world0) + i) (page_url ''u'' (1 + i)) =
        Ok (replicate 50 page10 ! i)) \<and>
    (\<forall>i<length (replicate 50 page10) - 1.
        10 \<le> length (parseReviewsFromHTML (replicate 50 page10 ! i))) \<and>
    (length (parseReviewsFromHTML (last (replicate 50 page10))) < 10 \<or>
     length (replicate 50 page10) = maxPages)"
    by (simp add: env_full_def maxPages_def len10)
  have h3: "flag_set env_cancelled (checks world0)"
    by (simp add: flag_set_def env_cancelled_def)
  have h4: "maxPages < 51" by (simp add: maxPages_def)
  have h5: "1 \<le> maxPages" by (simp add: maxPages_def)
  have h6: "cancelAt env_never = None \<and>
    (\<forall>k<3. is_failure (net env_never (length (requests world0) + k) (page_url ''u'' 1)))"
    by (simp add: env_never_def is_failure_def)
  have h7: "cancelAt env_flaky = None \<and> length ?gs < maxPages \<and>
    (\<forall>i<length ?gs. net env_flaky (length (requests world0) + i) (page_url ''u'' (1 + i)) = Ok (?gs ! i)) \<and>
    (\<forall>i<length ?gs. 10 \<le> length (parseReviewsFromHTML (?gs ! i))) \<and>
    (\<forall>k<3. is_failure (net env_flaky (length (requests world0) + length ?gs + k)
               (page_url ''u'' (1 + length ?gs))))"
    by (simp add: env_flaky_def maxPages_def world0_def All_less_Suc len10 is_failure_def
          numeral_3_eq_3)
  note t1 = pagination_stops [of 1 env_pages "''u''" "[]" world0 ?hs]
  note t2 = pagination_stops [of 51 env_full "''u''" "[]" world0 "replicate 50 page10"]
  note t3 = pagination_stops [of 1 env_cancelled "''u''" "[]" world0 "[]"]
  note t4 = pagination_stops [of 1 env_never "''u''" "[]" world0 "[]"]
  note t5 = pagination_stops [of 1 env_flaky "''u''" "[]" world0 ?gs]
  have l4: "length ?hs = 4" by simp
  have l2: "length ?gs = 2" by simp
  have l50: "length (replicate 50 page10) = 50" by simp
  have e1: "map (\<lambda>i. page_url ''u'' (1 + i)) [0..<4] = [''u'', ''u?p=2'', ''u?p=3'', ''u?p=4'']"
    by code_simp
  have e2: "map (\<lambda>i. page_url ''u'' (1 + i)) [0..<2] = [''u'', ''u?p=2'']"
    by code_simp
  have e3: "page_url ''u'' (1 + 2) = ''u?p=3''"
    by code_simp
  from t1 h1 have raw1: "pages_loop env_pages ''u'' 1 [] world0 =
        ((concat (map parseReviewsFromHTML ?hs),
          if length (parseReviewsFromHTML (last ?hs)) < 10 then length ?hs else Suc maxPages),
         world0\<lparr>checks := checks world0 + length ?hs,
           requests := requests world0 @ map (\<lambda>i. page_url ''u'' (1 + i)) [0..<length ?hs]\<rparr>)"
    by blast
  have r1: "pages_loop env_pages ''u'' 1 [] world0 =
        ((concat (map parseReviewsFromHTML ?hs), 4),
         \<lparr>requests = [''u'', ''u?p=2'', ''u?p=3'', ''u?p=4''], checks = 4\<rparr>)"
    unfolding raw1 l4 e1 by (simp add: len7 world0_def)
  from t2 h2 have raw2: "pages_loop env_full ''u'' 1 [] world0 =
        ((concat (map parseReviewsFromHTML (replicate 50 page10)),
          if length (parseReviewsFromHTML (last (replicate 50 page10))) < 10
          then length (replicate 50 page10) else Suc maxPages),
         world0\<lparr>checks := checks world0 + length (replicate 50 page10),
           requests := requests world0 @
             map (\<lambda>i. page_url ''u'' (1 + i)) [0..<length (replicate 50 page10)]\<rparr>)"
    by blast
  have r2: "pages_loop env_full ''u'' 1 [] world0 =
        ((concat (map parseReviewsFromHTML (replicate 50 page10)), 51),
         \<lparr>requests = map (\<lambda>i. page_url ''u'' (1 + i)) [0..<50], checks = 50\<rparr>)"
    unfolding raw2 l50 by (simp add: len10 world0_def maxPages_def)
  from t2 h4 have r3: "pages_loop env_full ''u'' 51 [] world0 = (([], 51), world0)"
    by blast
  from t3 h3 have r4: "fetched env_cancelled (page_url ''u'' 1) world0 = CancelRequested"
    by blast
  from t4 h6 have r6: "fetched env_never (page_url ''u'' 1) world0 = TransportError"
    by blast
  have y: "\<not> ends_pagination (fetched env_pages (page_url ''u'' 1) world0)"
    by (simp add: fetched_def flag_set_def ends_pagination_def env_pages_def world0_def len10)
  from t1 h5 y have r5: "snd (fst (pages_loop env_pages ''u'' 1 [] world0)) \<noteq> 1"
    by simp
  from t5 h7 have raw7: "pages_loop env_flaky ''u'' 1 [] world0 =
        ((concat (map parseReviewsFromHTML ?gs), 1 + length ?gs),
         world0\<lparr>checks := checks world0 + length ?gs + 3,
           requests := requests world0 @ map (\<lambda>i. page_url ''u'' (1 + i)) [0..<length ?gs] @
                       replicate 3 (page_url ''u'' (1 + length ?gs))\<rparr>)"
    by blast
  have r7: "pages_loop env_flaky ''u'' 1 [] world0 =
     ((parseReviewsFromHTML page10 @ parseReviewsFromHTML page10, 3),
      \<lparr>requests = [''u'', ''u?p=2'', ''u?p=3'', ''u?p=3'', ''u?p=3''], checks = 5\<rparr>)"
    unfolding raw7 l2 e2 e3 by (simp add: world0_def numeral_3_eq_3)
  have c1: "snd (fst (pages_loop env_pages ''u'' 1 [] world0)) = 4"
    unfolding r1 by simp
  have c2: "requests (snd (pages_loop env_pages ''u'' 1 [] world0)) =
      [''u'', ''u?p=2'', ''u?p=3'', ''u?p=4'']"
    unfolding r1 by simp
  have c3: "length (fst (fst (pages_loop env_pages ''u'' 1 [] world0))) = 37"
    unfolding r1 by (simp add: len10 len7)
  have c4: "snd (fst (pages_loop env_full ''u'' 1 [] world0)) = 51"
    unfolding r2 by simp
  have c5: "requests (snd (pages_loop env_full ''u'' 1 [] world0)) =
      map (\<lambda>i. page_url ''u'' (1 + i)) [0..<50]"
    unfolding r2 by simp
  from c1 c2 c3 c4 c5 r3 r4 r6 y r5 r7 show ?thesis by blast
qed

text \<open>
  C6, as the claim states it, fails: after two pages of ten reviews each the three
  attempts at page 3 fail with status 503 and the loop stops, although no fetched page
  yielded fewer than 10 reviews, page 50 is not reached and cancellation is not
  requested.
\<close>

theorem transport_stop_counterexample:
  "cancelAt env_flaky = None \<and>
   fetched env_flaky (page_url ''u'' 1) world0 = Body page10 \<and>
   fetched env_flaky (page_url ''u'' 2) \<lparr>requests = [''u''], checks = 1\<rparr> = Body page10 \<and>
   length (parseReviewsFromHTML page10) = 10 \<and>
   3 < maxPages \<and>
   pages_loop env_flaky ''u'' 1 [] world0 =
     ((parseReviewsFromHTML page10 @ parseReviewsFromHTML page10, 3),
      \<lparr>requests = [''u'', ''u?p=2'', ''u?p=3'', ''u?p=3'', ''u?p=3''], checks = 5\<rparr>)"
proof -
  have "cancelAt env_flaky = None" by (simp add: env_flaky_def)
  moreover have "fetched env_flaky (page_url ''u'' 1) world0 = Body page10"
    by (simp add: env_flaky_def fetched_def flag_set_def world0_def)
  moreover have "fetched env_flaky (page_url ''u'' 2) \<lparr>requests = [''u''], checks = 1\<rparr> = Body page10"
    by (simp add: env_flaky_def fetched_def flag_set_def)
  moreover have "3 < maxPages" by (simp add: maxPages_def)
  ultimately show ?thesis
    using len10 flaky_run by blast
qed

lemma fetchWithRetry_ok_flag:
  assumes "\<not> flag_set e (checks w)" and "net e (length (requests w)) url = Ok body"
  shows "fetchWithRetry e url 3 w =
           (Inr (Some body), w\<lparr>checks := checks w + 1, requests := requests w @ [url]\<rparr>)"
  using assms by (simp add: fetchWithRetry_def numeral_3_eq_3 shouldCancel_flag)

lemma feed_cut_run:
  "fetchGameReviewers env_feed_cut ''99'' 250 world0 =
     (replicate 100 \<lparr>steamId = ''5'', profileUrl = STEAM_COMMUNITY_URL @ ''/profiles/5'',
                       votedUp = True\<rparr>,
      \<lparr>requests = [feed_url ''99'' ''*'', feed_url ''99'' ''c1'', feed_url ''99'' ''c1'',
                   feed_url ''99'' ''c1''],
       checks = 6\<rparr>)"
proof -
  have nc: "cancelAt env_feed_cut = None" by (simp add: env_feed_cut_def)
  have ca: "cursor_after env_feed_cut ''*'' [batchA] = ''c1''"
    by (simp add: cursor_after_def next_cursor_def env_feed_cut_def batchA_def)
  have "discover_loop env_feed_cut ''99'' 250 [] ''*'' 0 0 world0 =
      (([] @ concat (map identities [batchA]), 0 + length [batchA] + 1),
       world0\<lparr>checks := checks world0 + 2 * length [batchA] + 4,
         requests := requests world0 @ map (feed_url ''99'') (cursors env_feed_cut ''*'' [batchA]) @
                     replicate 3 (feed_url ''99'' (cursor_after env_feed_cut ''*'' [batchA]))\<rparr>)"
    by (rule discover_then_failure [OF nc])
       (simp_all add: batchA_facts env_feed_cut_def parse_feed_def world0_def is_failure_def)
  then show ?thesis
    by (simp add: fetchGameReviewers_def batchA_facts ca world0_def numeral_3_eq_3)
qed

lemma cancel_late_run:
  "fetchGameReviewers env_cancel_late ''99'' 250 world0 =
     (replicate 100 \<lparr>steamId = ''5'', profileUrl = STEAM_COMMUNITY_URL @ ''/profiles/5'',
                       votedUp = True\<rparr>,
      \<lparr>requests = [feed_url ''99'' ''*''], checks = 3\<rparr>)"
proof -
  let ?w1 = "\<lparr>requests = [], checks = 1\<rparr>"
  let ?w2 = "\<lparr>requests = [feed_url ''99'' ''*''], checks = 2\<rparr>"
  let ?w3 = "\<lparr>requests = [feed_url ''99'' ''*''], checks = 3\<rparr>"
  have sc: "shouldCancel env_cancel_late world0 = (False, ?w1)"
    by (simp add: shouldCancel_flag flag_set_def env_cancel_late_def world0_def)
  have f: "fetchWithRetry env_cancel_late (feed_url ''99'' ''*'') 3 ?w1 = (Inr (Some ''A''), ?w2)"
    using fetchWithRetry_ok_flag [of env_cancel_late ?w1 "feed_url ''99'' ''*''" "''A''"]
    by (simp add: flag_set_def env_cancel_late_def)
  have j: "JSON_parse env_cancel_late ''A'' = Some batchA"
    by (simp add: env_cancel_late_def parse_feed_def)
  have sc2: "shouldCancel env_cancel_late ?w2 = (True, ?w3)"
    by (simp add: shouldCancel_flag flag_set_def env_cancel_late_def)
  have lt: "(0::nat) < 250" by simp
  have lt2: "(0::nat) + length (batch_of batchA) < 250" by (simp add: batchA_facts)
  have "discover_loop env_cancel_late ''99'' 250 [] ''*'' 0 0 world0 =
      discover_loop env_cancel_late ''99'' 250 ([] @ identities batchA)
        (next_cursor env_cancel_late batchA) (0 + length (batch_of batchA)) (0 + 1) ?w2"
    using batchA_facts
    by (simp add: discover_loop_received [OF lt sc f j] full_batch_def)
  also have "\<dots> = (([] @ identities batchA, 0 + 1), ?w3)"
    by (rule discover_loop_cancelled [OF lt2 sc2])
  finally show ?thesis
    by (simp add: fetchGameReviewers_def batchA_facts)
qed

text \<open>
  C7, as the code has it. Reviewer discovery returns at most \<open>maxProfiles\<close> reviewers.
  It makes no request when the running total has reached \<open>maxProfiles\<close> or cancellation
  is requested. A request is the last one exactly when the response reports no
  success, the batch is absent or empty, no next cursor is given, the batch holds
  fewer than 100 entries, the running total reaches \<open>maxProfiles\<close>, the response cannot
  be fetched or parsed, an entry of the batch has no author, or cancellation is
  requested during the fetch or at the next test of the flag. On responses that
  arrive, full batches followed by one that ends discovery, the result is made of the
  first \<open>maxProfiles\<close> reviewers of all the batches, those of a batch being its entries
  before the first one without author. So a first batch of fewer than 100 reviewers
  ends discovery after one request, whatever \<open>maxProfiles\<close> is.
\<close>

theorem discovery_stops:
  "length (fst (fetchGameReviewers e t m w)) \<le> m \<and>
   (\<not> tf < m \<or> flag_set e (checks w) \<longrightarrow>
      fst (discover_loop e t m rs cur tf rc w) = (rs, rc)) \<and>
   (tf < m \<and> \<not> flag_set e (checks w) \<longrightarrow>
      (snd (fst (discover_loop e t m rs cur tf rc w)) = rc + 1) =
      (ends_discovery e m tf (fetched e (feed_url t cur) (w\<lparr>checks := checks w + 1\<rparr>)) \<or>
       flag_set e (checks (snd (fetchWithRetry e (feed_url t cur) 3
                                  (w\<lparr>checks := checks w + 1\<rparr>)))))) \<and>
   (cancelAt e = None \<and> (\<forall>d\<in>set ds. full_batch d) \<and>
    sum_list (map (\<lambda>d. length (batch_of d)) ds) < m \<and>
    (\<forall>i<length ds. \<exists>body.
        net e (length (requests w) + i) (feed_url t (cursors e ''*'' ds ! i)) = Ok body \<and>
        JSON_parse e body = Some (ds ! i)) \<and>
    net e (length (requests w) + length ds) (feed_url t (cursor_after e ''*'' ds)) = Ok body \<and>
    JSON_parse e body = Some d \<and> success d \<and> batch_of d \<noteq> [] \<and>
    (lacks_author d \<or> stops_after m (sum_list (map (\<lambda>d. length (batch_of d)) ds)) d) \<longrightarrow>
      fetchGameReviewers e t m w =
        (take m (concat (map identities (ds @ [d]))),
         w\<lparr>checks := checks w + 2 * length ds + 2,
           requests := requests w @ map (feed_url t) (cursors e ''*'' (ds @ [d]))\<rparr>)) \<and>
   (cancelAt e = None \<and> 0 < m \<and>
    net e (length (requests w)) (feed_url t ''*'') = Ok body \<and>
    JSON_parse e body = Some d \<and> success d \<and> batch_of d \<noteq> [] \<and>
    length (batch_of d) < 100 \<longrightarrow>
      fetchGameReviewers e t m w =
        (take m (identities d),
         w\<lparr>checks := checks w + 2, requests := requests w @ [feed_url t ''*'']\<rparr>))"
proof (intro conjI impI)
  show "length (fst (fetchGameReviewers e t m w)) \<le> m"
    by (rule fetchGameReviewers_at_most)
next
  assume "\<not> tf < m \<or> flag_set e (checks w)"
  then show "fst (discover_loop e t m rs cur tf rc w) = (rs, rc)"
    by (auto simp: discover_loop.simps [of e t m rs cur tf rc w] shouldCancel_flag)
next
  assume "tf < m \<and> \<not> flag_set e (checks w)"
  then have "tf < m" and "\<not> flag_set e (checks w)" by simp_all
  then show "(snd (fst (discover_loop e t m rs cur tf rc w)) = rc + 1) =
      (ends_discovery e m tf (fetched e (feed_url t cur) (w\<lparr>checks := checks w + 1\<rparr>)) \<or>
       flag_set e (checks (snd (fetchWithRetry e (feed_url t cur) 3
                                  (w\<lparr>checks := checks w + 1\<rparr>)))))"
    by (rule discover_stops_iff)
next
  assume a: "cancelAt e = None \<and> (\<forall>d\<in>set ds. full_batch d) \<and>
    sum_list (map (\<lambda>d. length (batch_of d)) ds) < m \<and>
    (\<forall>i<length ds. \<exists>body.
        net e (length (requests w) + i) (feed_url t (cursors e ''*'' ds ! i)) = Ok body \<and>
        JSON_parse e body = Some (ds ! i)) \<and>
    net e (length (requests w) + length ds) (feed_url t (cursor_after e ''*'' ds)) = Ok body \<and>
    JSON_parse e body = Some d \<and> success d \<and> batch_of d \<noteq> [] \<and>
    (lacks_author d \<or> stops_after m (sum_list (map (\<lambda>d. length (batch_of d)) ds)) d)"
  then have nc: "cancelAt e = None" and full: "\<forall>d\<in>set ds. full_batch d"
    and lt: "0 + sum_list (map (\<lambda>d. length (batch_of d)) ds) < m"
    and served: "\<forall>i<length ds. \<exists>body.
        net e (length (requests w) + i) (feed_url t (cursors e ''*'' ds ! i)) = Ok body \<and>
        JSON_parse e body = Some (ds ! i)"
    and arrives: "net e (length (requests w) + length ds) (feed_url t (cursor_after e ''*'' ds)) = Ok body"
      "JSON_parse e body = Some d"
    and last: "success d" "batch_of d \<noteq> []"
      "lacks_author d \<or> stops_after m (0 + sum_list (map (\<lambda>d. length (batch_of d)) ds)) d"
    by simp_all
  from discover_then_last [OF nc full lt served arrives last, of "[]" 0]
  show "fetchGameReviewers e t m w =
        (take m (concat (map identities (ds @ [d]))),
         w\<lparr>checks := checks w + 2 * length ds + 2,
           requests := requests w @ map (feed_url t) (cursors e ''*'' (ds @ [d]))\<rparr>)"
    by (simp add: fetchGameReviewers_def)
next
  assume "cancelAt e = None \<and> 0 < m \<and>
    net e (length (requests w)) (feed_url t ''*'') = Ok body \<and>
    JSON_parse e body = Some d \<and> success d \<and> batch_of d \<noteq> [] \<and>
    length (batch_of d) < 100"
  then have "cancelAt e = None" and "0 < m"
    and "net e (length (requests w)) (feed_url t ''*'') = Ok body"
    and "JSON_parse e body = Some d" and "success d"
    and "batch_of d \<noteq> []" and "length (batch_of d) < 100"
    by simp_all
  then show "fetchGameReviewers e t m w =
        (take m (identities d),
         w\<lparr>checks := checks w + 2, requests := requests w @ [feed_url t ''*'']\<rparr>)"
    by (rule fetchGameReviewers_short_batch)
qed

theorem discovery_stops_witness:
  "fetchGameReviewers env_two ''99'' 150 world0 =
     (replicate 100 \<lparr>steamId = ''5'', profileUrl = STEAM_COMMUNITY_URL @ ''/profiles/5'',
                       votedUp = True\<rparr> @
      replicate 50 \<lparr>steamId = ''6'', profileUrl = STEAM_COMMUNITY_URL @ ''/profiles/6'',
                      votedUp = False\<rparr>,
      \<lparr>requests = [feed_url ''99'' ''*'', feed_url ''99'' ''c1''], checks = 4\<rparr>) \<and>
   snd (fst (discover_loop env_two ''99'' 150 [] ''*'' 0 0 world0)) \<noteq> 1 \<and>
   fetchGameReviewers env_feed ''99'' 100 world0 =
     ([\<lparr>steamId = ''2'', profileUrl = STEAM_COMMUNITY_URL @ ''/profiles/2'', votedUp = True\<rparr>],
      \<lparr>requests = [feed_url ''99'' ''*''], checks = 2\<rparr>) \<and>
   snd (fst (discover_loop env_feed ''99'' 100 [] ''*'' 0 0 world0)) = 1 \<and>
   fetchGameReviewers env_gap ''99'' 100 world0 =
     ([\<lparr>steamId = ''1'', profileUrl = STEAM_COMMUNITY_URL @ ''/profiles/1'', votedUp = True\<rparr>],
      \<lparr>requests = [feed_url ''99'' ''*''], checks = 2\<rparr>) \<and>
   fst (discover_loop env_feed ''99'' 0 [] ''*'' 0 0 world0) = ([], 0)"
proof -
  note t1 = discovery_stops [where e = env_two and t = "''99''" and m = 150 and w = world0
      and tf = 0 and rs = "[]" and cur = "''*''" and rc = 0 and ds = "[batchA]"
      and body = "''B''" and d = batchB]
  note t2 = discovery_stops [where e = env_feed and t = "''99''" and m = 100 and w = world0
      and tf = 0 and rs = "[]" and cur = "''*''" and rc = 0 and ds = "[]"
      and body = "''feed''" and d = feed1]
  note t3 = discovery_stops [where e = env_gap and t = "''99''" and m = 100 and w = world0
      and tf = 0 and rs = "[]" and cur = "''*''" and rc = 0 and ds = "[]"
      and body = "''gap''" and d = batch_gap]
  note t4 = discovery_stops [where e = env_feed and t = "''99''" and m = 0 and w = world0
      and tf = 0 and rs = "[]" and cur = "''*''" and rc = 0 and ds = "[]"
      and body = "''feed''" and d = feed1]
  have ca: "cursor_after env_two ''*'' [batchA] = ''c1''"
    by (simp add: cursor_after_def next_cursor_def env_two_def batchA_def)
  have h1: "cancelAt env_two = None \<and> (\<forall>d\<in>set [batchA]. full_batch d) \<and>
    sum_list (map (\<lambda>d. length (batch_of d)) [batchA]) < 150 \<and>
    (\<forall>i<length [batchA]. \<exists>body.
        net env_two (length (requests world0) + i)
          (feed_url ''99'' (cursors env_two ''*'' [batchA] ! i)) = Ok body \<and>
        JSON_parse env_two body = Some ([batchA] ! i)) \<and>
    net env_two (length (requests world0) + length [batchA])
      (feed_url ''99'' (cursor_after env_two ''*'' [batchA])) = Ok ''B'' \<and>
    JSON_parse env_two ''B'' = Some batchB \<and> success batchB \<and> batch_of batchB \<noteq> [] \<and>
    (lacks_author batchB \<or>
     stops_after 150 (sum_list (map (\<lambda>d. length (batch_of d)) [batchA])) batchB)"
    by (simp add: batchA_facts batchB_facts) (simp add: env_two_def parse_feed_def world0_def)
  from t1 h1 have raw1: "fetchGameReviewers env_two ''99'' 150 world0 =
        (take 150 (concat (map identities ([batchA] @ [batchB]))),
         world0\<lparr>checks := checks world0 + 2 * length [batchA] + 2,
           requests := requests world0 @
             map (feed_url ''99'') (cursors env_two ''*'' ([batchA] @ [batchB]))\<rparr>)"
    by blast
  have c1: "fetchGameReviewers env_two ''99'' 150 world0 =
     (replicate 100 \<lparr>steamId = ''5'', profileUrl = STEAM_COMMUNITY_URL @ ''/profiles/5'',
                       votedUp = True\<rparr> @
      replicate 50 \<lparr>steamId = ''6'', profileUrl = STEAM_COMMUNITY_URL @ ''/profiles/6'',
                      votedUp = False\<rparr>,
      \<lparr>requests = [feed_url ''99'' ''*'', feed_url ''99'' ''c1''], checks = 4\<rparr>)"
    unfolding raw1
    by (simp add: batchA_facts batchB_facts world0_def next_cursor_def)
       (simp add: env_two_def batchA_def)
  have e1: "\<not> ends_discovery env_two 150 0
      (fetched env_two (feed_url ''99'' ''*'') (world0\<lparr>checks := checks world0 + 1\<rparr>))"
    by (simp add: fetched_def flag_set_def env_two_def ends_discovery_def parse_feed_def
          batchA_facts world0_def)
  have f1: "\<not> flag_set env_two k" for k
    by (simp add: flag_set_def env_two_def)
  from t1 e1 f1 have c2: "snd (fst (discover_loop env_two ''99'' 150 [] ''*'' 0 0 world0)) \<noteq> 1"
    by simp
  have h2: "cancelAt env_feed = None \<and> 0 < (100::nat) \<and>
    net env_feed (length (requests world0)) (feed_url ''99'' ''*'') = Ok ''feed'' \<and>
    JSON_parse env_feed ''feed'' = Some feed1 \<and> success feed1 \<and> batch_of feed1 \<noteq> [] \<and>
    length (batch_of feed1) < 100"
    by (simp add: feed1_facts) (simp add: env_feed_def)
  from t2 h2 have raw2: "fetchGameReviewers env_feed ''99'' 100 world0 =
        (take 100 (identities feed1),
         world0\<lparr>checks := checks world0 + 2,
                requests := requests world0 @ [feed_url ''99'' ''*'']\<rparr>)"
    by blast
  have c3: "fetchGameReviewers env_feed ''99'' 100 world0 =
     ([\<lparr>steamId = ''2'', profileUrl = STEAM_COMMUNITY_URL @ ''/profiles/2'', votedUp = True\<rparr>],
      \<lparr>requests = [feed_url ''99'' ''*''], checks = 2\<rparr>)"
    unfolding raw2 by (simp add: feed1_facts world0_def)
  have e2: "ends_discovery env_feed 100 0
      (fetched env_feed (feed_url ''99'' ''*'') (world0\<lparr>checks := checks world0 + 1\<rparr>))"
    by (simp add: fetched_def flag_set_def env_feed_def ends_discovery_def feed1_facts world0_def)
  have f2: "\<not> flag_set env_feed (checks world0)"
    by (simp add: flag_set_def env_feed_def)
  from t2 e2 f2 have c4: "snd (fst (discover_loop env_feed ''99'' 100 [] ''*'' 0 0 world0)) = 1"
    by simp
  have h3: "cancelAt env_gap = None \<and> (\<forall>d\<in>set []. full_batch d) \<and>
    sum_list (map (\<lambda>d. length (batch_of d)) []) < (100::nat) \<and>
    (\<forall>i<length ([]::api_data list). \<exists>body.
        net env_gap (length (requests world0) + i)
          (feed_url ''99'' (cursors env_gap ''*'' [] ! i)) = Ok body \<and>
        JSON_parse env_gap body = Some ([] ! i)) \<and>
    net env_gap (length (requests world0) + length ([]::api_data list))
      (feed_url ''99'' (cursor_after env_gap ''*'' [])) = Ok ''gap'' \<and>
    JSON_parse env_gap ''gap'' = Some batch_gap \<and> success batch_gap \<and>
    batch_of batch_gap \<noteq> [] \<and>
    (lacks_author batch_gap \<or>
     stops_after 100 (sum_list (map (\<lambda>d. length (batch_of d)) [])) batch_gap)"
    by (simp add: batch_gap_facts) (simp add: env_gap_def parse_feed_def)
  from t3 h3 have raw3: "fetchGameReviewers env_gap ''99'' 100 world0 =
        (take 100 (concat (map identities ([] @ [batch_gap]))),
         world0\<lparr>checks := checks world0 + 2 * length ([]::api_data list) + 2,
           requests := requests world0 @
             map (feed_url ''99'') (cursors env_gap ''*'' ([] @ [batch_gap]))\<rparr>)"
    by blast
  have c5: "fetchGameReviewers env_gap ''99'' 100 world0 =
     ([\<lparr>steamId = ''1'', profileUrl = STEAM_COMMUNITY_URL @ ''/profiles/1'', votedUp = True\<rparr>],
      \<lparr>requests = [feed_url ''99'' ''*''], checks = 2\<rparr>)"
    unfolding raw3 by (simp add: batch_gap_facts world0_def)
  from t4 have c6: "fst (discover_loop env_feed ''99'' 0 [] ''*'' 0 0 world0) = ([], 0)"
    by simp
  from c1 c2 c3 c4 c5 c6 show ?thesis by blast
qed

text \<open>
  C7, as the claim states it, fails. After a full batch of 100 reviewers with a next
  cursor and \<open>maxProfiles = 250\<close>, none of the five conditions of the claim holds. Yet
  when the three attempts at the second batch fail with status 503 discovery stops
  with the 100 reviewers, and when cancellation is requested before the next test of
  the flag it stops with them after the one request.
\<close>

theorem discovery_stops_counterexample:
  "cancelAt env_feed_cut = None \<and>
   net env_feed_cut 0 (feed_url ''99'' ''*'') = Ok ''A'' \<and>
   JSON_parse env_feed_cut ''A'' = Some batchA \<and>
   \<not> stops_after 250 0 batchA \<and>
   fetchGameReviewers env_feed_cut ''99'' 250 world0 =
     (replicate 100 \<lparr>steamId = ''5'', profileUrl = STEAM_COMMUNITY_URL @ ''/profiles/5'',
                       votedUp = True\<rparr>,
      \<lparr>requests = [feed_url ''99'' ''*'', feed_url ''99'' ''c1'', feed_url ''99'' ''c1'',
                   feed_url ''99'' ''c1''],
       checks = 6\<rparr>) \<and>
   net env_cancel_late 0 (feed_url ''99'' ''*'') = Ok ''A'' \<and>
   JSON_parse env_cancel_late ''A'' = Some batchA \<and>
   fetchGameReviewers env_cancel_late ''99'' 250 world0 =
     (replicate 100 \<lparr>steamId = ''5'', profileUrl = STEAM_COMMUNITY_URL @ ''/profiles/5'',
                       votedUp = True\<rparr>,
      \<lparr>requests = [feed_url ''99'' ''*''], checks = 3\<rparr>)"
proof -
  have "cancelAt env_feed_cut = None" "net env_feed_cut 0 (feed_url ''99'' ''*'') = Ok ''A''"
    "JSON_parse env_feed_cut ''A'' = Some batchA"
    by (simp_all add: env_feed_cut_def parse_feed_def)
  moreover have "net env_cancel_late 0 (feed_url ''99'' ''*'') = Ok ''A''"
    "JSON_parse env_cancel_late ''A'' = Some batchA"
    by (simp_all add: env_cancel_late_def parse_feed_def)
  ultimately show ?thesis
    using batchA_facts(5) feed_cut_run cancel_late_run by blast
qed

subsection \<open>The collector\<close>

text \<open>
  C10. \<open>fetchReviewerReviews\<close> returns a list for every reviewer and never an error: its
  result is that of the page loop on the numeric form. In \<open>fetchAllReviewerData\<close> the
  error counter stays 0, every processed reviewer counts as succeeded or as
  private/empty, and the collected records are the succeeded ones, each with a
  non-empty history.
\<close>

theorem reviewer_fetch_never_raises:
  "fetchReviewerReviews e sid w =
     fetchAllReviewsFromProfile e (STEAM_COMMUNITY_URL @ ''/profiles/'' @ sid @ ''/recommended/'') w \<and>
   fst (fetchReviewerReviews e sid w) =
     Inr (fst (fst (pages_loop e (STEAM_COMMUNITY_URL @ ''/profiles/'' @ sid @ ''/recommended/'')
                      1 [] w))) \<and>
   errorCount (fst (collect_loop e reviewers collector0 w)) = 0 \<and>
   processed (fst (collect_loop e reviewers collector0 w)) =
     successCount (fst (collect_loop e reviewers collector0 w)) +
     privateProfileCount (fst (collect_loop e reviewers collector0 w)) \<and>
   length (fst (fetchAllReviewerData e reviewers maxProfiles w)) =
     successCount (fst (collect_loop e reviewers collector0 w)) \<and>
   [] \<notin> set (map reviews (fst (fetchAllReviewerData e reviewers maxProfiles w)))"
  using collect_loop_counts [of e reviewers collector0 w]
  by (simp add: fetchReviewerReviews_first_form fetchAllReviewsFromProfile_Inr
        fetchAllReviewerData_def collector0_def case_prod_unfold)

end
